theory Spec2Isabelle
  imports Complex_Main "HOL-Library.Sublist"
begin

section \<open>JavaScript text primitives\<close>

text \<open>
  Text is modelled as \<^typ>\<open>string\<close>; one \<^typ>\<open>char\<close> stands for one code unit of a
  JavaScript string, so the model covers text over the code units 0 to 255.  Every
  regular expression of the modelled components mentions ASCII characters only.
\<close>

definition is_digit :: "char \<Rightarrow> bool" where
  \<comment> \<open>the class \<open>[0-9]\<close>\<close>
  "is_digit c \<longleftrightarrow> 48 \<le> (of_char c :: nat) \<and> (of_char c :: nat) \<le> 57"

definition is_space :: "char \<Rightarrow> bool" where
  \<comment> \<open>WhiteSpace and LineTerminator of ECMAScript within the modelled range:
      TAB, LF, VT, FF, CR, SP and NBSP\<close>
  "is_space c \<longleftrightarrow> (of_char c :: nat) \<in> {9, 10, 11, 12, 13, 32, 160}"

definition trim :: "string \<Rightarrow> string" where
  \<comment> \<open>\<open>String.prototype.trim\<close>\<close>
  "trim s = rev (dropWhile is_space (rev (dropWhile is_space s)))"

definition digit_val :: "char \<Rightarrow> int" where
  "digit_val c = int (of_char c) - 48"

definition digits_value :: "string \<Rightarrow> int" where
  "digits_value z = foldl (\<lambda>a c. 10 * a + digit_val c) 0 z"

text \<open>
  \<open>parseInt(s, 10)\<close>: leading white space is skipped, one sign is read, then the
  longest run of decimal digits; no digit at all yields \<open>NaN\<close>, here \<^const>\<open>None\<close>.
  The result is kept exact.  JavaScript rounds it to a double, which changes it only
  from \<open>2^53\<close> on and never maps a value that large to a smaller one; the gate
  compares the result with answers of at most 100.
\<close>

definition parseInt :: "string \<Rightarrow> int option" where
  "parseInt s =
     (let S = dropWhile is_space s;
          sign = (case S of c # _ \<Rightarrow> if c = CHR ''-'' then - 1 else 1 | [] \<Rightarrow> (1::int));
          S' = (case S of c # r \<Rightarrow> if c = CHR ''+'' \<or> c = CHR ''-'' then r else S | [] \<Rightarrow> S);
          Z = takeWhile is_digit S'
      in if Z = [] then None else Some (sign * digits_value Z))"

definition digit_char :: "nat \<Rightarrow> char" where
  "digit_char d = char_of (48 + d)"

fun dec :: "nat \<Rightarrow> string" where
  "dec n = (if n < 10 then [digit_char n] else dec (n div 10) @ [digit_char (n mod 10)])"

declare dec.simps [simp del]

definition Number_toString :: "int \<Rightarrow> string" where
  \<comment> \<open>the decimal text of an integer, as a person types it\<close>
  "Number_toString i = (if i < 0 then CHR ''-'' # dec (nat (- i)) else dec (nat i))"


section \<open>ParentalGate: the arithmetic challenge\<close>

datatype operation = Plus | Minus | Times

record math_problem =
  num1 :: int
  num2 :: int
  operation :: "operation option"
  answer :: int

definition operations :: "operation list" where
  "operations = [Plus, Minus, Times]"

definition random_below :: "real \<Rightarrow> int \<Rightarrow> int" where
  \<comment> \<open>\<open>Math.floor(Math.random() * n)\<close>, for the value \<open>r\<close> that \<open>Math.random()\<close> returned\<close>
  "random_below r n = \<lfloor>r * of_int n\<rfloor>"

definition at_index :: "'a list \<Rightarrow> int \<Rightarrow> 'a option" where
  \<comment> \<open>\<open>xs[i]\<close>; out of range is \<open>undefined\<close>\<close>
  "at_index xs i = (if 0 \<le> i \<and> i < int (length xs) then Some (xs ! nat i) else None)"

text \<open>
  The challenge, computed once when the gate is mounted.  \<open>r0\<close>, \<open>r1\<close>, \<open>r2\<close> are the
  values of the three calls of \<open>Math.random()\<close>, in the order the code makes them.
\<close>

definition mathProblem :: "real \<Rightarrow> real \<Rightarrow> real \<Rightarrow> math_problem" where
  "mathProblem r0 r1 r2 =
     (let operation = at_index operations (random_below r0 (int (length operations)))
      in case operation of
           Some Plus \<Rightarrow>
             (let num1 = random_below r1 20 + 10; num2 = random_below r2 20 + 10
              in \<lparr>num1 = num1, num2 = num2, operation = operation, answer = num1 + num2\<rparr>)
         | Some Minus \<Rightarrow>
             (let num1 = random_below r1 30 + 20; num2 = random_below r2 15 + 5
              in \<lparr>num1 = num1, num2 = num2, operation = operation, answer = num1 - num2\<rparr>)
         | Some Times \<Rightarrow>
             (let num1 = random_below r1 8 + 3; num2 = random_below r2 8 + 3
              in \<lparr>num1 = num1, num2 = num2, operation = operation, answer = num1 * num2\<rparr>)
         | None \<Rightarrow> \<lparr>num1 = 10, num2 = 5, operation = operation, answer = 15\<rparr>)"

text \<open>The state of one mounted gate, and what a handler asks of its surroundings.\<close>

record gate =
  problem :: math_problem
  userAnswer :: string
  attempts :: nat
  showError :: bool

datatype signal =
    OnSuccess  \<comment> \<open>\<open>onSuccess()\<close>\<close>
  | SetTimeout_onCancel nat  \<comment> \<open>\<open>setTimeout(onCancel, d)\<close>\<close>

definition initial_gate :: "math_problem \<Rightarrow> gate" where
  "initial_gate p = \<lparr>problem = p, userAnswer = [], attempts = 0, showError = False\<rparr>"

definition handleInputChange :: "string \<Rightarrow> gate \<Rightarrow> gate" where
  \<comment> \<open>\<open>value.replace(/[^0-9-]/g, '')\<close> keeps exactly the digits and the hyphen\<close>
  "handleInputChange v g =
     g\<lparr>userAnswer := filter (\<lambda>c. is_digit c \<or> c = CHR ''-'') v, showError := False\<rparr>"

definition handleSubmit :: "gate \<Rightarrow> gate \<times> signal list" where
  "handleSubmit g =
     (let parsed = parseInt (userAnswer g)
      in if parsed = Some (answer (problem g)) then (g, [OnSuccess])
         else (g\<lparr>attempts := attempts g + 1, showError := True, userAnswer := []\<rparr>,
               if attempts g \<ge> 2 then [SetTimeout_onCancel 1500] else []))"

text \<open>
  The form around the handler.  The submit button carries \<open>disabled={!userAnswer}\<close>, and
  the answer field carries \<open>pattern="[0-9]*"\<close> in a form without \<open>noValidate\<close>: the
  browser checks the field against the whole pattern before it fires the submit event,
  and fires none while the text has a character that is not a digit.  So \<open>handleSubmit\<close>
  runs on a text that is not empty and consists of digits only, and on no other.
\<close>

definition can_submit :: "gate \<Rightarrow> bool" where
  "can_submit g \<longleftrightarrow> userAnswer g \<noteq> [] \<and> list_all is_digit (userAnswer g)"

definition form_submit :: "gate \<Rightarrow> gate \<times> signal list" where
  "form_submit g = (if can_submit g then handleSubmit g else (g, []))"


text \<open>
  The gate's handlers seen alone: the text field is edited and \<open>handleSubmit\<close> is run;
  the signals of all submissions are collected in order.
\<close>

datatype gate_event = Change string | SubmitForm

fun gate_step :: "gate \<times> signal list \<Rightarrow> gate_event \<Rightarrow> gate \<times> signal list" where
  "gate_step (g, out) (Change v) = (handleInputChange v g, out)"
| "gate_step (g, out) SubmitForm = (fst (handleSubmit g), out @ snd (handleSubmit g))"

definition gate_run :: "gate \<Rightarrow> gate_event list \<Rightarrow> gate \<times> signal list" where
  "gate_run g es = foldl gate_step (g, []) es"


section \<open>App: the navigation controller\<close>

record video =
  id' :: string
  title :: string
  emoji :: string
  color :: string

datatype view = Grid | Player | Settings

record app =
  currentView :: view
  selectedVideo :: "video option"
  showParentalGate :: bool
  videoLibrary :: "video list"

definition handleVideoSelect :: "video \<Rightarrow> app \<Rightarrow> app" where
  "handleVideoSelect v a = a\<lparr>selectedVideo := Some v, currentView := Player\<rparr>"

definition handleBackToGrid :: "app \<Rightarrow> app" where
  "handleBackToGrid a = a\<lparr>selectedVideo := None, currentView := Grid\<rparr>"

definition handleSettingsRequest :: "app \<Rightarrow> app" where
  "handleSettingsRequest a = a\<lparr>showParentalGate := True\<rparr>"

definition handleParentalGateSuccess :: "app \<Rightarrow> app" where
  "handleParentalGateSuccess a = a\<lparr>showParentalGate := False, currentView := Settings\<rparr>"

definition handleParentalGateCancel :: "app \<Rightarrow> app" where
  "handleParentalGateCancel a = a\<lparr>showParentalGate := False\<rparr>"

definition handleSettingsClose :: "app \<Rightarrow> app" where
  "handleSettingsClose a = a\<lparr>currentView := Grid\<rparr>"

definition handleAddVideo :: "video \<Rightarrow> app \<Rightarrow> app" where
  \<comment> \<open>\<open>setVideoLibrary((prev) => [...prev, newVideo])\<close>\<close>
  "handleAddVideo newVideo a = a\<lparr>videoLibrary := videoLibrary a @ [newVideo]\<rparr>"

definition handleRemoveVideo :: "string \<Rightarrow> app \<Rightarrow> app" where
  "handleRemoveVideo videoId a =
     a\<lparr>videoLibrary := filter (\<lambda>v. id' v \<noteq> videoId) (videoLibrary a)\<rparr>"

definition handleResetVideos :: "video list \<Rightarrow> app \<Rightarrow> app" where
  \<comment> \<open>\<open>videos\<close> is the compiled-in default sequence of \<open>data/videos.json\<close>\<close>
  "handleResetVideos videos a = a\<lparr>videoLibrary := videos\<rparr>"

definition initial_app :: "video list \<Rightarrow> app" where
  "initial_app lib =
     \<lparr>currentView = Grid, selectedVideo = None, showParentalGate = False, videoLibrary = lib\<rparr>"


section \<open>HoldButton and the page's timers\<close>

text \<open>
  A \<open>HoldButton\<close> keeps its progress, its holding flag and \<open>intervalRef.current\<close>
  (\<^const>\<open>None\<close> is \<open>null\<close>; timer ids are positive, hence truthy).  The timers belong to
  the page, not to the component: an interval runs until \<open>clearInterval\<close> is called with
  its id, and a timeout stays pending until it fires.  The callback of an interval
  closes over its own \<open>elapsed\<close> and over the component instance that started it.
\<close>

record hold_button =
  progress :: real
  isHolding :: bool
  intervalRef :: "nat option"

record gate_instance =
  form :: gate
  hold :: hold_button

record interval_timer =
  timer_id :: nat
  owner :: nat
  elapsed :: nat

definition HOLD_DURATION :: nat where "HOLD_DURATION = 3000"
definition UPDATE_INTERVAL :: nat where "UPDATE_INTERVAL = 50"

record page =
  app_state :: app
  instances :: "gate_instance list"  \<comment> \<open>every gate ever mounted; the index is its identity\<close>
  mounted :: "nat option"  \<comment> \<open>the gate on screen, if any\<close>
  intervals :: "interval_timer list"  \<comment> \<open>the live interval timers\<close>
  timeouts :: "nat list"  \<comment> \<open>the delays of the pending \<open>setTimeout(onCancel, d)\<close>, oldest first\<close>
  next_timer :: nat

definition initial_page :: "video list \<Rightarrow> page" where
  "initial_page lib =
     \<lparr>app_state = initial_app lib, instances = [], mounted = None, intervals = [],
      timeouts = [], next_timer = 1\<rparr>"

definition clearInterval :: "nat option \<Rightarrow> page \<Rightarrow> page" where
  "clearInterval r s =
     (case r of None \<Rightarrow> s
      | Some i \<Rightarrow> s\<lparr>intervals := filter (\<lambda>t. timer_id t \<noteq> i) (intervals s)\<rparr>)"

definition mount :: "math_problem \<Rightarrow> page \<Rightarrow> page" where
  "mount p s =
     s\<lparr>instances := instances s @
          [\<lparr>form = initial_gate p,
            hold = \<lparr>progress = 0, isHolding = False, intervalRef = None\<rparr>\<rparr>],
       mounted := Some (length (instances s))\<rparr>"

definition unmount :: "page \<Rightarrow> page" where
  \<comment> \<open>the cleanup of \<open>HoldButton\<close>: \<open>if (intervalRef.current) clearInterval(intervalRef.current)\<close>\<close>
  "unmount s =
     (case mounted s of None \<Rightarrow> s
      | Some k \<Rightarrow> (clearInterval (intervalRef (hold (instances s ! k))) s)\<lparr>mounted := None\<rparr>)"

definition rerender :: "page \<Rightarrow> page" where
  \<comment> \<open>\<open>{showParentalGate && <ParentalGate ... />}\<close>: a gate that is no longer shown is unmounted\<close>
  "rerender s = (if showParentalGate (app_state s) then s else unmount s)"

definition startHold :: "nat \<Rightarrow> page \<Rightarrow> page" where
  "startHold k s =
     (let i = next_timer s;
          inst = instances s ! k
      in s\<lparr>instances := (instances s)
              [k := inst\<lparr>hold := \<lparr>progress = 0, isHolding = True, intervalRef = Some i\<rparr>\<rparr>],
           intervals := intervals s @ [\<lparr>timer_id = i, owner = k, elapsed = 0\<rparr>],
           next_timer := i + 1\<rparr>)"

definition stopHold :: "nat \<Rightarrow> page \<Rightarrow> page" where
  "stopHold k s =
     (let inst = instances s ! k;
          r = intervalRef (hold inst)
      in clearInterval r
           (s\<lparr>instances := (instances s)
                [k := inst\<lparr>hold := (hold inst)\<lparr>isHolding := False, progress := 0\<rparr>\<rparr>]\<rparr>))"

definition interval_callback :: "interval_timer \<Rightarrow> page \<Rightarrow> page" where
  \<comment> \<open>one run of the function given to \<open>setInterval\<close>, for the timer \<open>t\<close> as it stands\<close>
  "interval_callback t s =
     (let e = elapsed t + UPDATE_INTERVAL;
          k = owner t;
          newProgress = (real e / real HOLD_DURATION) * 100;
          s1 = s\<lparr>intervals := map (\<lambda>u. if timer_id u = timer_id t then u\<lparr>elapsed := e\<rparr> else u)
                                 (intervals s)\<rparr>;
          s2 = (if mounted s1 = Some k
                then s1\<lparr>instances := (instances s1)
                          [k := (instances s1 ! k)
                             \<lparr>hold := (hold (instances s1 ! k))\<lparr>progress := newProgress\<rparr>\<rparr>]\<rparr>
                else s1)
      in if e \<ge> HOLD_DURATION
         then (clearInterval (intervalRef (hold (instances s2 ! k))) s2)
                \<lparr>app_state := handleParentalGateSuccess (app_state s2)\<rparr>
         else s2)"

fun deliver :: "signal \<Rightarrow> page \<Rightarrow> page" where
  "deliver OnSuccess s = s\<lparr>app_state := handleParentalGateSuccess (app_state s)\<rparr>"
| "deliver (SetTimeout_onCancel d) s = s\<lparr>timeouts := timeouts s @ [d]\<rparr>"

datatype event =
    SettingsClick real real real
      \<comment> \<open>the gear button of the grid; the three values are what \<open>Math.random()\<close> returns
          if a gate is mounted in response\<close>
  | InputChange string
  | Submit
  | CancelClick
  | HoldDown  \<comment> \<open>\<open>mousedown\<close> or \<open>touchstart\<close> on the hold button\<close>
  | HoldUp  \<comment> \<open>\<open>mouseup\<close>, \<open>mouseleave\<close>, \<open>touchend\<close> or \<open>touchcancel\<close>\<close>
  | IntervalFires nat
      \<comment> \<open>the page runs the callback of the live interval with this id, as it does every
          \<open>UPDATE_INTERVAL\<close> ms and never earlier\<close>
  | TimeoutFires
      \<comment> \<open>the page runs the oldest pending timeout, its delay after it was armed\<close>
  | SettingsClose

text \<open>
  One event of the page.  An event on an element that is not on screen cannot occur
  and leaves the state as it is: the gear button exists in the grid view only, the
  gate's elements only while a gate is mounted, and the form is submitted only while
  \<open>can_submit\<close> holds of it (the button is enabled and the field matches its pattern).
\<close>

fun handle :: "page \<Rightarrow> event \<Rightarrow> page" where
  "handle s (SettingsClick r0 r1 r2) =
     (if currentView (app_state s) \<noteq> Grid then s
      else let s' = s\<lparr>app_state := handleSettingsRequest (app_state s)\<rparr>
           in if mounted s' = None then mount (mathProblem r0 r1 r2) s' else s')"
| "handle s (InputChange v) =
     (case mounted s of None \<Rightarrow> s
      | Some k \<Rightarrow>
          s\<lparr>instances := (instances s)
               [k := (instances s ! k)\<lparr>form := handleInputChange v (form (instances s ! k))\<rparr>]\<rparr>)"
| "handle s Submit =
     (case mounted s of None \<Rightarrow> s
      | Some k \<Rightarrow>
          let g = form (instances s ! k)
          in if \<not> can_submit g then s
             else fold deliver (snd (handleSubmit g))
                    (s\<lparr>instances := (instances s)
                          [k := (instances s ! k)\<lparr>form := fst (handleSubmit g)\<rparr>]\<rparr>))"
| "handle s CancelClick =
     (case mounted s of None \<Rightarrow> s
      | Some k \<Rightarrow> s\<lparr>app_state := handleParentalGateCancel (app_state s)\<rparr>)"
| "handle s HoldDown = (case mounted s of None \<Rightarrow> s | Some k \<Rightarrow> startHold k s)"
| "handle s HoldUp = (case mounted s of None \<Rightarrow> s | Some k \<Rightarrow> stopHold k s)"
| "handle s (IntervalFires i) =
     (case filter (\<lambda>t. timer_id t = i) (intervals s) of
        [] \<Rightarrow> s
      | t # _ \<Rightarrow> interval_callback t s)"
| "handle s TimeoutFires =
     (case timeouts s of
        [] \<Rightarrow> s
      | d # ds \<Rightarrow> s\<lparr>timeouts := ds, app_state := handleParentalGateCancel (app_state s)\<rparr>)"
| "handle s SettingsClose =
     (if currentView (app_state s) = Settings
      then s\<lparr>app_state := handleSettingsClose (app_state s)\<rparr> else s)"

definition step :: "page \<Rightarrow> event \<Rightarrow> page" where
  "step s e = rerender (handle s e)"

definition run :: "page \<Rightarrow> event list \<Rightarrow> page" where
  "run s es = foldl step s es"


text \<open>
  The page \<open>s\<close> with exactly one live interval, which belongs to the gate \<open>k\<close> and has
  counted \<open>e\<close> milliseconds, and with the progress of that gate's button as the interval's
  callback last set it.
\<close>

definition with_interval :: "page \<Rightarrow> nat \<Rightarrow> nat \<Rightarrow> nat \<Rightarrow> page" where
  "with_interval s i k e =
     s\<lparr>intervals := [\<lparr>timer_id = i, owner = k, elapsed = e\<rparr>],
       instances := (instances s)
         [k := (instances s ! k)
            \<lparr>hold := (hold (instances s ! k))
               \<lparr>progress := (real e / real HOLD_DURATION) * 100\<rparr>\<rparr>]\<rparr>"

section \<open>VideoPlayer: the playback fallback\<close>

record player =
  isLoading :: bool
  hasError :: bool
  useLocalVideo :: bool

definition initial_player :: player where
  "initial_player = \<lparr>isLoading = True, hasError = False, useLocalVideo = False\<rparr>"

definition handleReady :: "player \<Rightarrow> player" where
  "handleReady p = p\<lparr>isLoading := False\<rparr>"

definition handleError :: "player \<Rightarrow> player" where
  "handleError p = p\<lparr>useLocalVideo := True, isLoading := True, hasError := False\<rparr>"

definition handleEnd :: "player \<Rightarrow> player" where
  \<comment> \<open>seeks to the start and plays again; the component's state is untouched\<close>
  "handleEnd p = p"

definition handleLocalVideoReady :: "player \<Rightarrow> player" where
  "handleLocalVideoReady p = p\<lparr>isLoading := False\<rparr>"

definition handleLocalPlayRejected :: "player \<Rightarrow> player" where
  \<comment> \<open>the \<open>catch\<close> of \<open>videoRef.current.play()\<close> in \<open>handleLocalVideoReady\<close>\<close>
  "handleLocalPlayRejected p = p\<lparr>hasError := True\<rparr>"

definition handleLocalVideoError :: "player \<Rightarrow> player" where
  "handleLocalVideoError p = p\<lparr>hasError := True, isLoading := False\<rparr>"

definition handleLocalVideoEnd :: "player \<Rightarrow> player" where
  "handleLocalVideoEnd p = p"

datatype player_event =
    YouTubeReady | YouTubeError | YouTubeEnd
  | LocalLoadedData | LocalPlayRejected | LocalError | LocalEnded

text \<open>
  The component renders the YouTube player while \<open>useLocalVideo\<close> is false and the
  \<open>video\<close> element otherwise; an element that is not rendered sends no signal.
\<close>

fun from_youtube :: "player_event \<Rightarrow> bool" where
  "from_youtube YouTubeReady = True"
| "from_youtube YouTubeError = True"
| "from_youtube YouTubeEnd = True"
| "from_youtube _ = False"

fun player_handler :: "player_event \<Rightarrow> player \<Rightarrow> player" where
  "player_handler YouTubeReady = handleReady"
| "player_handler YouTubeError = handleError"
| "player_handler YouTubeEnd = handleEnd"
| "player_handler LocalLoadedData = handleLocalVideoReady"
| "player_handler LocalPlayRejected = handleLocalPlayRejected"
| "player_handler LocalError = handleLocalVideoError"
| "player_handler LocalEnded = handleLocalVideoEnd"

definition player_step :: "player \<Rightarrow> player_event \<Rightarrow> player" where
  "player_step p e = (if from_youtube e = useLocalVideo p then p else player_handler e p)"

definition player_run :: "player \<Rightarrow> player_event list \<Rightarrow> player" where
  "player_run p es = foldl player_step p es"

fun source_switches :: "player \<Rightarrow> player_event list \<Rightarrow> nat" where
  \<comment> \<open>how often \<open>useLocalVideo\<close> changes its value along a run\<close>
  "source_switches p [] = 0"
| "source_switches p (e # es) =
     (if useLocalVideo (player_step p e) \<noteq> useLocalVideo p then 1 else 0)
       + source_switches (player_step p e) es"


section \<open>SettingsPanel: the add form\<close>

definition is_id_char :: "char \<Rightarrow> bool" where
  \<comment> \<open>the class \<open>[a-zA-Z0-9_-]\<close>\<close>
  "is_id_char c \<longleftrightarrow>
     (let n = (of_char c :: nat)
      in (97 \<le> n \<and> n \<le> 122) \<or> (65 \<le> n \<and> n \<le> 90) \<or> (48 \<le> n \<and> n \<le> 57)
         \<or> c = CHR ''_'' \<or> c = CHR ''-'')"

definition is_bare_id :: "string \<Rightarrow> bool" where
  \<comment> \<open>\<open>/^[a-zA-Z0-9_-]{11}$/.test(input)\<close>\<close>
  "is_bare_id input \<longleftrightarrow> length input = 11 \<and> list_all is_id_char input"

definition match_here :: "string \<Rightarrow> string \<Rightarrow> string option" where
  \<comment> \<open>the literal \<open>lit\<close>, then the group \<open>([a-zA-Z0-9_-]{11})\<close>, matched at the start of \<open>s\<close>\<close>
  "match_here lit s =
     (if take (length lit) s = lit
      then let v = take 11 (drop (length lit) s)
           in if length v = 11 \<and> list_all is_id_char v then Some v else None
      else None)"

fun search :: "string \<Rightarrow> string \<Rightarrow> string option" where
  \<comment> \<open>\<open>input.match(/lit([a-zA-Z0-9_-]{11})/)\<close>: the group of the leftmost match\<close>
  "search lit [] = match_here lit []"
| "search lit (c # r) =
     (case match_here lit (c # r) of Some v \<Rightarrow> Some v | None \<Rightarrow> search lit r)"

definition patterns :: "string list" where
  "patterns = [''youtube.com/watch?v='', ''youtu.be/'', ''youtube.com/embed/'', ''youtube.com/v/'']"

fun first_match :: "string list \<Rightarrow> string \<Rightarrow> string option" where
  "first_match [] input = None"
| "first_match (pattern # ps) input =
     (case search pattern input of Some v \<Rightarrow> Some v | None \<Rightarrow> first_match ps input)"

definition extractVideoId :: "string \<Rightarrow> string option" where
  "extractVideoId input = (if is_bare_id input then Some input else first_match patterns input)"

record add_form =
  newVideoId :: string
  newVideoTitle :: string
  newVideoEmoji :: string
  selectedColor :: string

text \<open>
  The submit handler of the add form, for the library \<open>videos\<close> the panel was given:
  either an error message is set and nothing else happens, or \<open>onAddVideo\<close> is called
  with the new entry.
\<close>

definition SettingsPanel_handleAddVideo :: "add_form \<Rightarrow> video list \<Rightarrow> string + video" where
  "SettingsPanel_handleAddVideo f videos =
     (case extractVideoId (trim (newVideoId f)) of
        None \<Rightarrow> Inl ''Invalid YouTube video ID or URL''
      | Some videoId \<Rightarrow>
          if videoId = [] then Inl ''Invalid YouTube video ID or URL''
          else if trim (newVideoTitle f) = [] then Inl ''Please enter a title''
          else if list_ex (\<lambda>v. id' v = videoId) videos
            then Inl ''This video is already in the library''
          else Inr \<lparr>id' = videoId, title = trim (newVideoTitle f),
                    emoji = newVideoEmoji f, color = selectedColor f\<rparr>)"

definition submit_add_form :: "add_form \<Rightarrow> app \<Rightarrow> app" where
  \<comment> \<open>the panel is rendered with \<open>videos = videoLibrary\<close> and \<open>onAddVideo = handleAddVideo\<close>\<close>
  "submit_add_form f a =
     (case SettingsPanel_handleAddVideo f (videoLibrary a) of
        Inl err \<Rightarrow> a
      | Inr newVideo \<Rightarrow> handleAddVideo newVideo a)"


section \<open>Persistence of the library\<close>

text \<open>
  The library is written to \<open>localStorage\<close> as the text \<open>JSON.stringify\<close> produces and read
  back with \<open>JSON.parse\<close>.  Both belong to the platform; they are modelled here after the
  JSON grammar, for text over the code units 0 to 255.  \<open>JSON.parse\<close> yields a value of
  any shape, so the loaded library is a \<open>json\<close> value; a number is kept as its source
  text, and an escape \<open>\uXXXX\<close> stands for the code unit \<open>XXXX\<close> within the modelled
  range.  The parser takes fuel, the length of its input, which is always enough
  (\<open>JSON_parse_fuel\<close> below).
\<close>

abbreviation dquote :: char where "dquote \<equiv> CHR 0x22"
abbreviation backslash :: char where "backslash \<equiv> CHR 0x5C"

datatype json =
    JNull
  | JBool bool
  | JNumber string
  | JString string
  | JArray "json list"
  | JObject "(string \<times> json) list"




text \<open>\<open>JSON.parse\<close>: the characters of a string after its opening quote, then values.\<close>

definition hex_val :: "char \<Rightarrow> nat option" where
  "hex_val c =
     (let n = (of_char c :: nat)
      in if 48 \<le> n \<and> n \<le> 57 then Some (n - 48)
         else if 97 \<le> n \<and> n \<le> 102 then Some (n - 87)
         else if 65 \<le> n \<and> n \<le> 70 then Some (n - 55)
         else None)"

definition unescape :: "char \<Rightarrow> char option" where
  "unescape e =
     (if e = dquote then Some dquote
      else if e = backslash then Some backslash
      else if e = CHR ''/'' then Some CHR ''/''
      else if e = CHR ''b'' then Some (CHR 0x08)
      else if e = CHR ''f'' then Some (CHR 0x0C)
      else if e = CHR ''n'' then Some (CHR 0x0A)
      else if e = CHR ''r'' then Some (CHR 0x0D)
      else if e = CHR ''t'' then Some (CHR 0x09)
      else None)"

definition prepend :: "'a \<Rightarrow> ('a list \<times> 'b) option \<Rightarrow> ('a list \<times> 'b) option" where
  "prepend x r = (case r of None \<Rightarrow> None | Some (xs, rest) \<Rightarrow> Some (x # xs, rest))"

fun parse_chars :: "string \<Rightarrow> (string \<times> string) option" where
  "parse_chars [] = None"
| "parse_chars (c # r) =
     (if c = dquote then Some ([], r)
      else if c = backslash then
        (case r of
           [] \<Rightarrow> None
         | e # r1 \<Rightarrow>
             if e = CHR ''u'' then
               (case r1 of
                  h1 # h2 # h3 # h4 # r2 \<Rightarrow>
                    (case (hex_val h1, hex_val h2, hex_val h3, hex_val h4) of
                       (Some a, Some b, Some c, Some d) \<Rightarrow>
                          prepend (char_of (((a * 16 + b) * 16 + c) * 16 + d)) (parse_chars r2)
                     | _ \<Rightarrow> None)
                | _ \<Rightarrow> None)
             else (case unescape e of None \<Rightarrow> None | Some x \<Rightarrow> prepend x (parse_chars r1)))
      else if (of_char c :: nat) < 32 then None
      else prepend c (parse_chars r))"

definition is_ws :: "char \<Rightarrow> bool" where
  \<comment> \<open>the white space of JSON: TAB, LF, CR and SP\<close>
  "is_ws c \<longleftrightarrow> (of_char c :: nat) \<in> {9, 10, 13, 32}"

definition skip_ws :: "string \<Rightarrow> string" where
  "skip_ws s = dropWhile is_ws s"

definition opt_frac :: "string \<Rightarrow> (string \<times> string) option" where
  "opt_frac s =
     (case s of
        [] \<Rightarrow> Some ([], s)
      | c # r \<Rightarrow>
          if c = CHR ''.''
          then (if takeWhile is_digit r = [] then None
                else Some (c # takeWhile is_digit r, dropWhile is_digit r))
          else Some ([], s))"

definition opt_exp :: "string \<Rightarrow> (string \<times> string) option" where
  "opt_exp s =
     (case s of
        [] \<Rightarrow> Some ([], s)
      | c # r \<Rightarrow>
          if c = CHR ''e'' \<or> c = CHR ''E''
          then (let sg = (case r of x # _ \<Rightarrow> if x = CHR ''+'' \<or> x = CHR ''-'' then [x] else []
                          | [] \<Rightarrow> []);
                    r1 = drop (length sg) r
                in if takeWhile is_digit r1 = [] then None
                   else Some (c # sg @ takeWhile is_digit r1, dropWhile is_digit r1))
          else Some ([], s))"

definition parse_number :: "string \<Rightarrow> (string \<times> string) option" where
  "parse_number s =
     (let sg = (case s of c # _ \<Rightarrow> if c = CHR ''-'' then [c] else [] | [] \<Rightarrow> []);
          s1 = drop (length sg) s;
          ip = takeWhile is_digit s1
      in if ip = [] \<or> (hd ip = CHR ''0'' \<and> length ip > 1) then None
         else (case opt_frac (dropWhile is_digit s1) of
                 None \<Rightarrow> None
               | Some (fr, s2) \<Rightarrow>
                   (case opt_exp s2 of
                      None \<Rightarrow> None
                    | Some (ex, s3) \<Rightarrow> Some (sg @ ip @ fr @ ex, s3))))"

definition apfst_opt :: "('a \<Rightarrow> 'c) \<Rightarrow> ('a \<times> 'b) option \<Rightarrow> ('c \<times> 'b) option" where
  "apfst_opt f r = (case r of None \<Rightarrow> None | Some (x, rest) \<Rightarrow> Some (f x, rest))"

definition parse_scalar :: "string \<Rightarrow> (json \<times> string) option" where
  \<comment> \<open>a string, a literal name or a number at the start of \<open>s\<close>\<close>
  "parse_scalar s =
     (if take 1 s = [dquote] then apfst_opt JString (parse_chars (drop 1 s))
      else if take 4 s = ''true'' then Some (JBool True, drop 4 s)
      else if take 5 s = ''false'' then Some (JBool False, drop 5 s)
      else if take 4 s = ''null'' then Some (JNull, drop 4 s)
      else apfst_opt JNumber (parse_number s))"

definition parse_key :: "string \<Rightarrow> (string \<times> string) option" where
  \<comment> \<open>the name of a member and the colon after it\<close>
  "parse_key s =
     (case skip_ws s of
        [] \<Rightarrow> None
      | q # r \<Rightarrow>
          if q \<noteq> dquote then None
          else
            (case parse_chars r of
               None \<Rightarrow> None
             | Some (k, r1) \<Rightarrow>
                 (case skip_ws r1 of
                    [] \<Rightarrow> None
                  | c # r2 \<Rightarrow> if c \<noteq> CHR '':'' then None else Some (k, r2))))"

fun parse_value :: "nat \<Rightarrow> string \<Rightarrow> (json \<times> string) option"
  and parse_elements :: "nat \<Rightarrow> string \<Rightarrow> (json list \<times> string) option"
  and parse_members :: "nat \<Rightarrow> string \<Rightarrow> ((string \<times> json) list \<times> string) option"
where
  "parse_value 0 s = None"
| "parse_value (Suc n) s =
     (case skip_ws s of
        [] \<Rightarrow> None
      | c # r \<Rightarrow>
          if c = CHR ''{'' then
            (case skip_ws r of
               [] \<Rightarrow> None
             | c' # r' \<Rightarrow> if c' = CHR ''}'' then Some (JObject [], r')
                          else apfst_opt JObject (parse_members n (c' # r')))
          else if c = CHR ''['' then
            (case skip_ws r of
               [] \<Rightarrow> None
             | c' # r' \<Rightarrow> if c' = CHR '']'' then Some (JArray [], r')
                          else apfst_opt JArray (parse_elements n (c' # r')))
          else parse_scalar (c # r))"
| "parse_elements 0 s = None"
| "parse_elements (Suc n) s =
     (case parse_value n s of
        None \<Rightarrow> None
      | Some (v, r) \<Rightarrow>
          (case skip_ws r of
             [] \<Rightarrow> None
           | c # r' \<Rightarrow>
               if c = CHR '','' then prepend v (parse_elements n r')
               else if c = CHR '']'' then Some ([v], r')
               else None))"
| "parse_members 0 s = None"
| "parse_members (Suc n) s =
     (case parse_key s of
        None \<Rightarrow> None
      | Some (k, r) \<Rightarrow>
          (case parse_value n r of
             None \<Rightarrow> None
           | Some (v, r') \<Rightarrow>
               (case skip_ws r' of
                  [] \<Rightarrow> None
                | c # r'' \<Rightarrow>
                    if c = CHR '','' then prepend (k, v) (parse_members n r'')
                    else if c = CHR ''}'' then Some ([(k, v)], r'')
                    else None)))"

definition JSON_parse :: "string \<Rightarrow> json option" where
  "JSON_parse text =
     (case parse_value (length text) text of
        None \<Rightarrow> None
      | Some (v, rest) \<Rightarrow> if skip_ws rest = [] then Some v else None)"

text \<open>
  The outcome of a parse with less fuel is below the outcome with more: it is a failure
  or the same result.
\<close>

definition below :: "'a option \<Rightarrow> 'a option \<Rightarrow> bool" where
  "below a b \<longleftrightarrow> a = None \<or> a = b"




definition json_of_video :: "video \<Rightarrow> json" where
  "json_of_video v =
     JObject [(''id'', JString (id' v)), (''title'', JString (title v)),
              (''emoji'', JString (emoji v)), (''color'', JString (color v))]"

definition json_of_library :: "video list \<Rightarrow> json" where
  "json_of_library lib = JArray (map json_of_video lib)"

text \<open>Start-up and saving in \<open>App\<close>.\<close>

type_synonym storage = "string \<rightharpoonup> string"

definition getItem :: "storage \<Rightarrow> string \<Rightarrow> string option" where
  \<comment> \<open>\<open>localStorage.getItem(key)\<close>; \<^const>\<open>None\<close> is \<open>null\<close>\<close>
  "getItem st key = st key"


definition videoLibrary_initial :: "json \<Rightarrow> storage \<Rightarrow> json" where
  \<comment> \<open>the initializer of the \<open>videoLibrary\<close> state; \<open>videos\<close> is the compiled-in default.
      \<open>if (saved)\<close> is false for \<open>null\<close> and for the empty text; a \<open>JSON.parse\<close> that throws
      is caught.\<close>
  "videoLibrary_initial videos st =
     (case getItem st ''kidsVideoLibrary'' of
        None \<Rightarrow> videos
      | Some saved \<Rightarrow>
          if saved = [] then videos
          else (case JSON_parse saved of Some v \<Rightarrow> v | None \<Rightarrow> videos))"


text \<open>
  The first render.  \<open>App\<close> starts in the grid view and hands the loaded library to
  \<open>VideoGrid\<close>, which evaluates \<open>videos.map((video) => <VideoCard key={video.id} ... />)\<close>.
  Of the values \<open>JSON.parse\<close> returns only an array has a \<open>map\<close> method, and reading
  \<open>video.id\<close> throws on \<open>null\<close> and on no other entry.  A \<open>TypeError\<close> thrown while
  rendering is caught nowhere in the program and takes the whole page down.  The model
  covers this call, not what the cards do with their entries afterwards.
\<close>

datatype js_error = TypeError

definition VideoGrid_cards :: "json \<Rightarrow> js_error + json list" where
  "VideoGrid_cards videos =
     (case videos of
        JArray vs \<Rightarrow> if JNull \<in> set vs then Inl TypeError else Inr vs
      | _ \<Rightarrow> Inl TypeError)"


section \<open>Properties of the arithmetic challenge\<close>

lemma is_digit_digit_char: "d < 10 \<Longrightarrow> is_digit (digit_char d)"
  by (simp add: is_digit_def digit_char_def)

lemma digit_val_digit_char: "d < 10 \<Longrightarrow> digit_val (digit_char d) = int d"
  by (simp add: digit_val_def digit_char_def)

lemma dec_digits: "c \<in> set (dec n) \<Longrightarrow> is_digit c"
  by (induction n rule: dec.induct) (subst (asm) dec.simps, auto simp: is_digit_digit_char split: if_splits)

lemma dec_nonempty: "dec n \<noteq> []"
  by (subst dec.simps) simp

lemma digits_value_snoc: "digits_value (z @ [c]) = 10 * digits_value z + digit_val c"
  by (simp add: digits_value_def)

lemma digits_value_dec: "digits_value (dec n) = int n"
proof (induction n rule: dec.induct)
  case (1 n)
  show ?case
  proof (cases "n < 10")
    case True
    then show ?thesis by (subst dec.simps) (simp add: digits_value_def digit_val_digit_char)
  next
    case False
    then have "digits_value (dec (n div 10)) = int (n div 10)" using 1 by simp
    with False show ?thesis
      by (subst dec.simps) (simp add: digits_value_snoc digit_val_digit_char zdiv_int zmod_int)
  qed
qed

lemma digit_not_space: "is_digit c \<Longrightarrow> \<not> is_space c"
  by (auto simp: is_digit_def is_space_def)

lemma digit_not_sign: "is_digit c \<Longrightarrow> c \<noteq> CHR ''-'' \<and> c \<noteq> CHR ''+''"
  by (auto simp: is_digit_def)

lemma takeWhile_dec: "takeWhile is_digit (dec n) = dec n"
  by (simp add: dec_digits)

lemma parseInt_digits:
  assumes "z \<noteq> []" and "\<forall>c \<in> set z. is_digit c"
  shows "parseInt z = Some (digits_value z)"
proof -
  obtain c r where cr: "z = c # r" using assms(1) by (cases z) auto
  have d: "is_digit c" using assms(2) cr by simp
  have tw: "takeWhile is_digit z = z" using assms(2) by simp
  have dw: "dropWhile is_space z = z" using digit_not_space [OF d] cr by simp
  have "parseInt z = (if takeWhile is_digit z = [] then None else Some (1 * digits_value (takeWhile is_digit z)))"
    unfolding parseInt_def dw Let_def using digit_not_sign [OF d] by (simp add: cr)
  then show ?thesis using tw assms(1) by simp
qed

lemma parseInt_dec: "parseInt (dec n) = Some (int n)"
  using parseInt_digits [of "dec n"] by (simp add: dec_nonempty dec_digits digits_value_dec)

lemma parseInt_minus_dec: "parseInt (CHR ''-'' # dec n) = Some (- int n)"
  using dec_nonempty [of n]
  by (simp add: parseInt_def Let_def is_space_def takeWhile_dec digits_value_dec)

lemma parseInt_Number_toString: "parseInt (Number_toString i) = Some i"
  by (simp add: Number_toString_def parseInt_dec parseInt_minus_dec)

lemma filter_Number_toString:
  "filter (\<lambda>c. is_digit c \<or> c = CHR ''-'') (Number_toString i) = Number_toString i"
  by (auto simp: Number_toString_def dec_digits intro!: filter_True)

lemma submit_typed_answer:
  "answer (problem g) = a \<Longrightarrow>
   handleSubmit (handleInputChange (Number_toString a) g) =
     (handleInputChange (Number_toString a) g, [OnSuccess])"
  by (simp add: handleSubmit_def handleInputChange_def filter_Number_toString
      parseInt_Number_toString)

lemma random_below_range: "0 \<le> r \<Longrightarrow> r < 1 \<Longrightarrow> 0 < n \<Longrightarrow> 0 \<le> random_below r n \<and> random_below r n < n"
  unfolding random_below_def
proof
  assume a: "0 \<le> r" "r < 1" "0 < n"
  then show "0 \<le> \<lfloor>r * of_int n\<rfloor>" by simp
  have "r * of_int n < of_int n" using a by simp
  then show "\<lfloor>r * of_int n\<rfloor> < n" by (simp add: floor_less_iff)
qed


lemma operation_index: "0 \<le> r0 \<Longrightarrow> r0 < 1 \<Longrightarrow>
   at_index operations (random_below r0 (int (length operations))) \<in> {Some Plus, Some Minus, Some Times}"
proof -
  assume a: "0 \<le> r0" "r0 < 1"
  let ?i = "random_below r0 3"
  have "0 \<le> ?i \<and> ?i < 3" using random_below_range [of r0 3] a by simp
  then have "?i = 0 \<or> ?i = 1 \<or> ?i = 2" by arith
  then show ?thesis by (auto simp: at_index_def operations_def)
qed

text \<open>
  Claim C1.  Whatever the three random draws, the challenge of a freshly mounted gate
  obeys the table of its operator: for \<open>+\<close> both operands lie in 10..29 and the answer
  is their sum; for \<open>-\<close> the left operand lies in 20..49, the right one in 5..19 and the
  answer is their difference, which is positive; for \<open>\<times>\<close> both operands lie in
  3..10 and the answer is their product; the fallback branch of the \<open>switch\<close> is never
  taken.  Typing the decimal text of the answer into the field and submitting the form
  calls \<open>onSuccess\<close>, whatever the gate's attempt counter and error flag are.
\<close>

theorem gate_challenge_correct:
  assumes "0 \<le> r0" "r0 < 1" "0 \<le> r1" "r1 < 1" "0 \<le> r2" "r2 < 1"
  shows "(let p = mathProblem r0 r1 r2 in
          (case operation p of
             Some Plus \<Rightarrow> 10 \<le> num1 p \<and> num1 p \<le> 29 \<and> 10 \<le> num2 p \<and> num2 p \<le> 29
                \<and> answer p = num1 p + num2 p
           | Some Minus \<Rightarrow> 20 \<le> num1 p \<and> num1 p \<le> 49 \<and> 5 \<le> num2 p \<and> num2 p \<le> 19
                \<and> answer p = num1 p - num2 p \<and> 0 < answer p
           | Some Times \<Rightarrow> 3 \<le> num1 p \<and> num1 p \<le> 10 \<and> 3 \<le> num2 p \<and> num2 p \<le> 10
                \<and> answer p = num1 p * num2 p
           | None \<Rightarrow> False)
          \<and> (\<forall>g. problem g = p \<longrightarrow>
                snd (handleSubmit (handleInputChange (Number_toString (answer p)) g)) = [OnSuccess]))"
proof -
  have b20: "0 \<le> random_below r1 20 \<and> random_below r1 20 < 20" "0 \<le> random_below r2 20 \<and> random_below r2 20 < 20"
    using random_below_range assms by simp_all
  have b30: "0 \<le> random_below r1 30 \<and> random_below r1 30 < 30"
    using random_below_range assms by simp
  have b15: "0 \<le> random_below r2 15 \<and> random_below r2 15 < 15"
    using random_below_range assms by simp
  have b8: "0 \<le> random_below r1 8 \<and> random_below r1 8 < 8" "0 \<le> random_below r2 8 \<and> random_below r2 8 < 8"
    using random_below_range assms by simp_all
  define p where "p = mathProblem r0 r1 r2"
  have sub: "\<forall>g. problem g = p \<longrightarrow>
      snd (handleSubmit (handleInputChange (Number_toString (answer p)) g)) = [OnSuccess]"
  proof (intro allI impI)
    fix g :: gate assume "problem g = p"
    then show "snd (handleSubmit (handleInputChange (Number_toString (answer p)) g)) = [OnSuccess]"
      using submit_typed_answer [of g "answer p"] by simp
  qed
  consider "at_index operations (random_below r0 (int (length operations))) = Some Plus"
    | "at_index operations (random_below r0 (int (length operations))) = Some Minus"
    | "at_index operations (random_below r0 (int (length operations))) = Some Times"
    using operation_index [OF assms(1,2)] by auto
  then have table: "case operation p of
             Some Plus \<Rightarrow> 10 \<le> num1 p \<and> num1 p \<le> 29 \<and> 10 \<le> num2 p \<and> num2 p \<le> 29
                \<and> answer p = num1 p + num2 p
           | Some Minus \<Rightarrow> 20 \<le> num1 p \<and> num1 p \<le> 49 \<and> 5 \<le> num2 p \<and> num2 p \<le> 19
                \<and> answer p = num1 p - num2 p \<and> 0 < answer p
           | Some Times \<Rightarrow> 3 \<le> num1 p \<and> num1 p \<le> 10 \<and> 3 \<le> num2 p \<and> num2 p \<le> 10
                \<and> answer p = num1 p * num2 p
           | None \<Rightarrow> False"
  proof cases
    case 1
    then show ?thesis using b20 by (simp add: p_def mathProblem_def Let_def)
  next
    case 2
    then show ?thesis using b30 b15 by (simp add: p_def mathProblem_def Let_def)
  next
    case 3
    then show ?thesis using b8 by (simp add: p_def mathProblem_def Let_def)
  qed
  show ?thesis
    unfolding Let_def p_def [symmetric] using table sub by (rule conjI)
qed

lemma sample_problem: "mathProblem (1/2) (1/2) (1/4) = \<lparr>num1 = 35, num2 = 8, operation = Some Minus, answer = 27\<rparr>"
  by (simp add: mathProblem_def random_below_def at_index_def operations_def)

lemma Number_toString_27: "Number_toString 27 = ''27''"
  by code_simp

theorem gate_challenge_correct_witness:
  "(0::real) \<le> 1/2 \<and> (1/2::real) < 1 \<and> (0::real) \<le> 1/4 \<and> (1/4::real) < 1
   \<and> mathProblem (1/2) (1/2) (1/4) = \<lparr>num1 = 35, num2 = 8, operation = Some Minus, answer = 27\<rparr>
   \<and> snd (handleSubmit (handleInputChange ''27'' (initial_gate (mathProblem (1/2) (1/2) (1/4))))) = [OnSuccess]"
  using gate_challenge_correct [of "1/2" "1/2" "1/4"]
  by (simp add: sample_problem Number_toString_27 Let_def initial_gate_def)

section \<open>Properties of the answer field\<close>

text \<open>
  Claim C8, as stated, fails: the filter of the answer field keeps the hyphen, which is
  not a digit.  Typing \<open>-5\<close> stores \<open>-5\<close>: not every non-digit character is discarded
  before the text is stored.
\<close>

theorem answer_field_counterexample:
  "userAnswer (handleInputChange ''-5'' (initial_gate (mathProblem (1/2) (1/2) (1/4)))) = ''-5''
   \<and> \<not> list_all is_digit
         (userAnswer (handleInputChange ''-5'' (initial_gate (mathProblem (1/2) (1/2) (1/4)))))"
  by (simp add: handleInputChange_def is_digit_def)

lemma count_list_filter: "P c \<Longrightarrow> count_list (filter P v) c = count_list v c"
  by (induction v) auto

text \<open>
  Claim C8, amended.  On every change of the answer field, every character other than
  a digit or a hyphen is discarded before the text is stored: what is stored consists of
  digits and hyphens only, is a subsequence of what was typed, and contains every digit
  and hyphen of it as often as it was typed; the challenge and the attempt counter are
  untouched.  The form can be submitted exactly when the stored text is not empty and
  has digits only.  A stored text with a hyphen is therefore never submitted: submitting
  changes nothing and signals nothing.  When the form is submitted, the handler runs on
  a text of digits, the value it parses is the decimal value of these digits, and the
  submission succeeds exactly when that value is the expected answer.  So the value
  matched against the expected answer is computed from digit characters only.
\<close>

theorem answer_field_filter:
  "(let g' = handleInputChange v g in
     list_all (\<lambda>c. is_digit c \<or> c = CHR ''-'') (userAnswer g')
     \<and> subseq (userAnswer g') v
     \<and> (\<forall>c. is_digit c \<or> c = CHR ''-'' \<longrightarrow> count_list (userAnswer g') c = count_list v c)
     \<and> problem g' = problem g \<and> attempts g' = attempts g
     \<and> (can_submit g' \<longleftrightarrow> userAnswer g' \<noteq> [] \<and> list_all is_digit (userAnswer g'))
     \<and> (\<not> can_submit g' \<longrightarrow> form_submit g' = (g', []))
     \<and> (can_submit g' \<longrightarrow>
          form_submit g' = handleSubmit g'
          \<and> parseInt (userAnswer g') = Some (digits_value (userAnswer g'))
          \<and> (snd (form_submit g') = [OnSuccess]
               \<longleftrightarrow> digits_value (userAnswer g') = answer (problem g))))"
proof -
  let ?P = "\<lambda>c. is_digit c \<or> c = CHR ''-''"
  define g' where "g' = handleInputChange v g"
  have u: "userAnswer g' = filter ?P v"
    by (simp add: g'_def handleInputChange_def)
  have p: "problem g' = problem g" "attempts g' = attempts g"
    by (simp_all add: g'_def handleInputChange_def)
  have 1: "list_all ?P (userAnswer g')" unfolding u by (simp add: list_all_iff)
  have 2: "subseq (userAnswer g') v" unfolding u by simp
  have 3: "\<forall>c. ?P c \<longrightarrow> count_list (userAnswer g') c = count_list v c"
    unfolding u using count_list_filter [of ?P] by blast
  have 4: "can_submit g' \<longleftrightarrow> userAnswer g' \<noteq> [] \<and> list_all is_digit (userAnswer g')"
    by (simp add: can_submit_def)
  have 5: "\<not> can_submit g' \<longrightarrow> form_submit g' = (g', [])"
    by (simp add: form_submit_def)
  have 6: "can_submit g' \<longrightarrow>
          form_submit g' = handleSubmit g'
          \<and> parseInt (userAnswer g') = Some (digits_value (userAnswer g'))
          \<and> (snd (form_submit g') = [OnSuccess]
               \<longleftrightarrow> digits_value (userAnswer g') = answer (problem g))"
  proof
    assume c: "can_submit g'"
    then have pi: "parseInt (userAnswer g') = Some (digits_value (userAnswer g'))"
      using parseInt_digits [of "userAnswer g'"] by (simp add: can_submit_def list_all_iff)
    have s: "snd (handleSubmit g') = [OnSuccess]
               \<longleftrightarrow> digits_value (userAnswer g') = answer (problem g)"
      by (simp add: handleSubmit_def pi p)
    show "form_submit g' = handleSubmit g'
          \<and> parseInt (userAnswer g') = Some (digits_value (userAnswer g'))
          \<and> (snd (form_submit g') = [OnSuccess]
               \<longleftrightarrow> digits_value (userAnswer g') = answer (problem g))"
      using c pi s by (simp add: form_submit_def)
  qed
  show ?thesis
    unfolding Let_def g'_def [symmetric] using 1 2 3 4 5 6 p by blast
qed

theorem answer_field_filter_witness:
  "userAnswer (handleInputChange ''a-1 b2'' (initial_gate (mathProblem (1/2) (1/2) (1/4)))) = ''-12''
   \<and> list_all (\<lambda>c. is_digit c \<or> c = CHR ''-'') ''-12''
   \<and> subseq ''-12'' ''a-1 b2''
   \<and> count_list ''-12'' CHR ''1'' = count_list ''a-1 b2'' CHR ''1''
   \<and> \<not> can_submit (handleInputChange ''a-1 b2'' (initial_gate (mathProblem (1/2) (1/2) (1/4))))
   \<and> form_submit (handleInputChange ''a-1 b2'' (initial_gate (mathProblem (1/2) (1/2) (1/4))))
       = (handleInputChange ''a-1 b2'' (initial_gate (mathProblem (1/2) (1/2) (1/4))), [])
   \<and> userAnswer (handleInputChange ''2x7'' (initial_gate (mathProblem (1/2) (1/2) (1/4)))) = ''27''
   \<and> can_submit (handleInputChange ''2x7'' (initial_gate (mathProblem (1/2) (1/2) (1/4))))
   \<and> parseInt ''27'' = Some 27
   \<and> snd (form_submit (handleInputChange ''2x7'' (initial_gate (mathProblem (1/2) (1/2) (1/4)))))
       = [OnSuccess]"
proof -
  let ?g = "initial_gate (mathProblem (1/2) (1/2) (1/4))"
  let ?a = "handleInputChange ''a-1 b2'' ?g"
  let ?b = "handleInputChange ''2x7'' ?g"
  have u: "userAnswer ?a = ''-12''"
    by (simp add: handleInputChange_def is_digit_def)
  have w: "userAnswer ?b = ''27''"
    by (simp add: handleInputChange_def is_digit_def)
  have d: "is_digit CHR ''1'' \<or> CHR ''1'' = CHR ''-''"
    by (simp add: is_digit_def)
  have n: "\<not> can_submit ?a"
    unfolding can_submit_def u by (simp add: is_digit_def)
  have c: "can_submit ?b"
    unfolding can_submit_def w by (simp add: is_digit_def)
  have v: "digits_value ''27'' = 27"
    by (simp add: digits_value_def digit_val_def)
  have a: "answer (problem ?g) = 27"
    by (simp add: initial_gate_def mathProblem_def random_below_def at_index_def operations_def)
  note A = answer_field_filter [of "''a-1 b2''" ?g, unfolded Let_def u]
  note B = answer_field_filter [of "''2x7''" ?g, unfolded Let_def w v a]
  have 1: "list_all (\<lambda>c. is_digit c \<or> c = CHR ''-'') ''-12''"
    and 2: "subseq ''-12'' ''a-1 b2''"
    and 3: "count_list ''-12'' CHR ''1'' = count_list ''a-1 b2'' CHR ''1''"
    and 4: "form_submit ?a = (?a, [])"
    using A n d by blast+
  have 5: "parseInt ''27'' = Some 27"
    and 6: "snd (form_submit ?b) = [OnSuccess]"
    using B c by blast+
  show ?thesis
    using u w n c 1 2 3 4 5 6 by blast
qed

section \<open>Properties of wrong submissions\<close>

lemma gate_run_snoc: "gate_run g (es @ [e]) = gate_step (gate_run g es) e"
  by (simp add: gate_run_def)

lemma handleSubmit_wrong:
  "OnSuccess \<notin> set (snd (handleSubmit g)) \<Longrightarrow>
   handleSubmit g = (g\<lparr>attempts := attempts g + 1, showError := True, userAnswer := []\<rparr>,
                     if attempts g \<ge> 2 then [SetTimeout_onCancel 1500] else [])"
  by (simp add: handleSubmit_def Let_def split: if_splits)

lemma gate_run_signals_mono: "set (snd (gate_run g es)) \<subseteq> set (snd (gate_run g (es @ [e])))"
  by (cases "gate_run g es"; cases e) (auto simp: gate_run_snoc)

lemma gate_run_attempts:
  "OnSuccess \<notin> set (snd (gate_run (initial_gate p) es)) \<Longrightarrow>
   attempts (fst (gate_run (initial_gate p) es)) = count_list es SubmitForm"
proof (induction es rule: rev_induct)
  case Nil
  then show ?case by (simp add: gate_run_def initial_gate_def)
next
  case (snoc e es)
  obtain g out where go: "gate_run (initial_gate p) es = (g, out)" by (cases "gate_run (initial_gate p) es")
  have prev: "OnSuccess \<notin> set (snd (gate_run (initial_gate p) es))"
    using snoc.prems gate_run_signals_mono [of "initial_gate p" es e] by auto
  then have ih: "attempts g = count_list es SubmitForm" using snoc.IH go by simp
  show ?case
  proof (cases e)
    case (Change v)
    then show ?thesis using ih go by (simp add: gate_run_snoc handleInputChange_def)
  next
    case SubmitForm
    then have "OnSuccess \<notin> set (snd (handleSubmit g))"
      using snoc.prems go by (simp add: gate_run_snoc)
    then show ?thesis using ih go SubmitForm
      by (simp add: gate_run_snoc handleSubmit_wrong)
  qed
qed

text \<open>
  Claim C2.  Take any run of a fresh gate, made of edits of the answer field and of
  submissions that were all wrong, and let it end with a submission, the \<open>n\<close>-th of
  the run.  That submission raises the attempt counter by one, to \<open>n\<close>, clears the
  answer field and shows the error; it arms \<open>setTimeout(onCancel, 1500)\<close> if \<open>n\<close> is
  at least three and does nothing else otherwise.  So the first and the second wrong
  submission arm nothing, and the third arms the cancellation after 1500 ms.
\<close>

theorem wrong_submission_lockout:
  assumes "OnSuccess \<notin> set (snd (gate_run (initial_gate p) (es @ [SubmitForm])))"
  shows "(let n = count_list (es @ [SubmitForm]) SubmitForm;
              before = gate_run (initial_gate p) es;
              after = gate_run (initial_gate p) (es @ [SubmitForm])
          in attempts (fst after) = n
             \<and> attempts (fst after) = attempts (fst before) + 1
             \<and> userAnswer (fst after) = []
             \<and> showError (fst after)
             \<and> snd after = snd before @ (if n \<ge> 3 then [SetTimeout_onCancel 1500] else []))"
proof -
  obtain g out where go: "gate_run (initial_gate p) es = (g, out)" by (cases "gate_run (initial_gate p) es")
  have prev: "OnSuccess \<notin> set (snd (gate_run (initial_gate p) es))"
    using assms gate_run_signals_mono [of "initial_gate p" es SubmitForm] by auto
  have n: "attempts g = count_list es SubmitForm"
    using gate_run_attempts [OF prev] go by simp
  have "OnSuccess \<notin> set (snd (handleSubmit g))"
    using assms go by (simp add: gate_run_snoc)
  then have hs: "handleSubmit g = (g\<lparr>attempts := attempts g + 1, showError := True, userAnswer := []\<rparr>,
                     if attempts g \<ge> 2 then [SetTimeout_onCancel 1500] else [])"
    by (rule handleSubmit_wrong)
  show ?thesis
    unfolding Let_def gate_run_snoc go using n by (simp add: hs)
qed


lemma three_wrong_run:
  "gate_run (initial_gate (mathProblem (1/2) (1/2) (1/4)))
     [Change ''0'', SubmitForm, Change ''1'', SubmitForm, Change ''2'', SubmitForm]
   = (\<lparr>problem = mathProblem (1/2) (1/2) (1/4), userAnswer = [], attempts = 3, showError = True\<rparr>,
      [SetTimeout_onCancel 1500])"
  by (simp add: gate_run_def initial_gate_def sample_problem handleInputChange_def handleSubmit_def
      parseInt_def is_space_def is_digit_def digits_value_def digit_val_def)

lemma two_wrong_run:
  "gate_run (initial_gate (mathProblem (1/2) (1/2) (1/4)))
     [Change ''0'', SubmitForm, Change ''1'', SubmitForm, Change ''2'']
   = (\<lparr>problem = mathProblem (1/2) (1/2) (1/4), userAnswer = ''2'', attempts = 2, showError = False\<rparr>,
      [])"
  by (simp add: gate_run_def initial_gate_def sample_problem handleInputChange_def handleSubmit_def
      parseInt_def is_space_def is_digit_def digits_value_def digit_val_def)

theorem wrong_submission_lockout_witness:
  "OnSuccess \<notin> set (snd (gate_run (initial_gate (mathProblem (1/2) (1/2) (1/4)))
       ([Change ''0'', SubmitForm, Change ''1'', SubmitForm, Change ''2''] @ [SubmitForm])))
   \<and> snd (gate_run (initial_gate (mathProblem (1/2) (1/2) (1/4)))
       [Change ''0'', SubmitForm, Change ''1'', SubmitForm, Change ''2'']) = []
   \<and> snd (gate_run (initial_gate (mathProblem (1/2) (1/2) (1/4)))
       ([Change ''0'', SubmitForm, Change ''1'', SubmitForm, Change ''2''] @ [SubmitForm]))
      = [SetTimeout_onCancel 1500]
   \<and> attempts (fst (gate_run (initial_gate (mathProblem (1/2) (1/2) (1/4)))
       ([Change ''0'', SubmitForm, Change ''1'', SubmitForm, Change ''2''] @ [SubmitForm]))) = 3"
proof -
  have h: "OnSuccess \<notin> set (snd (gate_run (initial_gate (mathProblem (1/2) (1/2) (1/4)))
       ([Change ''0'', SubmitForm, Change ''1'', SubmitForm, Change ''2''] @ [SubmitForm])))"
    using three_wrong_run by simp
  show ?thesis
    using h wrong_submission_lockout [OF h] two_wrong_run
    by (simp add: Let_def)
qed

section \<open>Properties of the playback fallback\<close>

lemma handler_keeps_local: "useLocalVideo p \<Longrightarrow> useLocalVideo (player_handler e p)"
  by (cases e) (simp_all add: handleReady_def handleError_def handleEnd_def handleLocalVideoReady_def
      handleLocalPlayRejected_def handleLocalVideoError_def handleLocalVideoEnd_def)

lemma step_keeps_local: "useLocalVideo p \<Longrightarrow> useLocalVideo (player_step p e)"
  by (simp add: player_step_def handler_keeps_local)

lemma run_keeps_local: "useLocalVideo p \<Longrightarrow> useLocalVideo (player_run p es)"
  unfolding player_run_def
  by (induction es arbitrary: p) (simp_all add: step_keeps_local)

lemma step_keeps_error: "useLocalVideo p \<Longrightarrow> hasError p \<Longrightarrow> hasError (player_step p e)"
  by (cases e) (simp_all add: player_step_def handleLocalVideoReady_def
      handleLocalPlayRejected_def handleLocalVideoError_def handleLocalVideoEnd_def)

lemma run_keeps_error: "useLocalVideo p \<Longrightarrow> hasError p \<Longrightarrow> hasError (player_run p es)"
  unfolding player_run_def
  by (induction es arbitrary: p) (simp_all add: step_keeps_local step_keeps_error)

lemma local_no_switch: "useLocalVideo p \<Longrightarrow> source_switches p es = 0"
  by (induction es arbitrary: p) (simp_all add: step_keeps_local)

lemma at_most_one_switch: "source_switches p es \<le> 1"
proof (induction es arbitrary: p)
  case Nil
  then show ?case by simp
next
  case (Cons e es)
  show ?case
  proof (cases "useLocalVideo (player_step p e) \<noteq> useLocalVideo p")
    case True
    then have "useLocalVideo (player_step p e)"
      using step_keeps_local [of p e] by auto
    then show ?thesis using True by (simp add: local_no_switch)
  next
    case False
    then show ?thesis using Cons.IH [of "player_step p e"] by simp
  qed
qed

text \<open>
  Claim C6.  In remote mode an error of the YouTube player switches the session to the
  local file, sets \<open>isLoading\<close> and clears \<open>hasError\<close>.  Along any run of player
  signals the source changes at most once.  Once the session is in local mode it stays
  there and the source never changes again; there an error of the local file sets
  \<open>hasError\<close> and clears \<open>isLoading\<close>, and whatever signals follow, \<open>hasError\<close> stays
  set, the session stays in local mode and no source switch happens.
\<close>

theorem fallback_bound:
  "(\<not> useLocalVideo p \<longrightarrow>
      player_step p YouTubeError = p\<lparr>useLocalVideo := True, isLoading := True, hasError := False\<rparr>)
   \<and> source_switches p es \<le> 1
   \<and> (useLocalVideo p \<longrightarrow>
        source_switches p es = 0
        \<and> useLocalVideo (player_run p es)
        \<and> player_step p LocalError = p\<lparr>hasError := True, isLoading := False\<rparr>
        \<and> hasError (player_run (player_step p LocalError) es)
        \<and> useLocalVideo (player_run (player_step p LocalError) es)
        \<and> source_switches (player_step p LocalError) es = 0)"
proof -
  have a: "\<not> useLocalVideo p \<longrightarrow>
      player_step p YouTubeError = p\<lparr>useLocalVideo := True, isLoading := True, hasError := False\<rparr>"
    by (simp add: player_step_def handleError_def)
  have b: "player_step p LocalError = p\<lparr>hasError := True, isLoading := False\<rparr>" if "useLocalVideo p"
    using that by (simp add: player_step_def handleLocalVideoError_def)
  have c: "hasError (player_run (player_step p LocalError) es)
        \<and> useLocalVideo (player_run (player_step p LocalError) es)
        \<and> source_switches (player_step p LocalError) es = 0" if l: "useLocalVideo p"
  proof -
    have l': "useLocalVideo (player_step p LocalError)" using l by (rule step_keeps_local)
    have e': "hasError (player_step p LocalError)" using b [OF l] by simp
    show ?thesis using l' e' by (simp add: run_keeps_error run_keeps_local local_no_switch)
  qed
  show ?thesis
    using a b c at_most_one_switch [of p es] by (simp add: local_no_switch run_keeps_local)
qed

theorem fallback_bound_witness:
  "useLocalVideo (player_step initial_player YouTubeError)
   \<and> player_step initial_player YouTubeError = \<lparr>isLoading = True, hasError = False, useLocalVideo = True\<rparr>
   \<and> source_switches initial_player [YouTubeError, LocalError, YouTubeError, LocalLoadedData] = 1
   \<and> player_run (player_step initial_player YouTubeError) [LocalError, YouTubeError, LocalLoadedData]
       = \<lparr>isLoading = False, hasError = True, useLocalVideo = True\<rparr>
   \<and> source_switches (player_step (player_step initial_player YouTubeError) LocalError)
        [YouTubeError, LocalLoadedData] = 0"
proof -
  let ?p = "player_step initial_player YouTubeError"
  have p: "?p = \<lparr>isLoading = True, hasError = False, useLocalVideo = True\<rparr>"
    by (simp add: player_step_def initial_player_def handleError_def)
  have l: "useLocalVideo ?p" by (simp add: p)
  have r: "player_run ?p [LocalError, YouTubeError, LocalLoadedData]
       = \<lparr>isLoading = False, hasError = True, useLocalVideo = True\<rparr>"
    unfolding p by (simp add: player_run_def player_step_def handleLocalVideoError_def handleLocalVideoReady_def)
  have s: "source_switches initial_player [YouTubeError, LocalError, YouTubeError, LocalLoadedData] = 1"
    by (simp add: player_step_def initial_player_def handleError_def handleLocalVideoError_def
        handleLocalVideoReady_def)
  have z: "source_switches (player_step ?p LocalError) [YouTubeError, LocalLoadedData] = 0"
    using fallback_bound [of ?p "[YouTubeError, LocalLoadedData]"] l by blast
  show ?thesis
    using l p r s z by blast
qed

section \<open>Properties of the add form\<close>

lemma search_absent: "c \<in> set lit \<Longrightarrow> c \<notin> set s \<Longrightarrow> search lit s = None"
proof (induction s)
  case Nil
  then show ?case by (auto simp: match_here_def)
next
  case (Cons a s)
  have "take (length lit) (a # s) \<noteq> lit"
  proof
    assume "take (length lit) (a # s) = lit"
    then have "set lit \<subseteq> set (a # s)" by (metis set_take_subset)
    with Cons.prems show False by auto
  qed
  then have "match_here lit (a # s) = None" by (simp add: match_here_def)
  with Cons show ?case by simp
qed

lemma match_here_short: "length s < length lit + 11 \<Longrightarrow> match_here lit s = None"
  by (auto simp: match_here_def Let_def)

lemma search_short: "length s < length lit + 11 \<Longrightarrow> search lit s = None"
  by (induction s) (simp_all add: match_here_short)

lemma bare_no_dot: "is_bare_id v \<Longrightarrow> CHR ''.'' \<notin> set v"
  by (auto simp: is_bare_id_def list_all_iff is_id_char_def)

lemma match_here_id: "is_bare_id v \<Longrightarrow> match_here lit (lit @ v) = Some v"
  by (simp add: match_here_def is_bare_id_def)

lemma extract_bare: "is_bare_id v \<Longrightarrow> extractVideoId v = Some v"
  by (simp add: extractVideoId_def)

lemma extract_watch:
  assumes "is_bare_id v"
  shows "extractVideoId (''https://www.youtube.com/watch?v='' @ v) = Some v"
proof -
  have nb: "\<not> is_bare_id (''https://www.youtube.com/watch?v='' @ v)"
    by (simp add: is_bare_id_def)
  have "match_here ''youtube.com/watch?v='' (''youtube.com/watch?v='' @ v) = Some v"
    using assms by (rule match_here_id)
  then have "search ''youtube.com/watch?v='' (''https://www.youtube.com/watch?v='' @ v) = Some v"
    by (simp add: match_here_def)
  then show ?thesis using nb by (simp add: extractVideoId_def patterns_def)
qed

lemma extract_short:
  assumes "is_bare_id v"
  shows "extractVideoId (''https://youtu.be/'' @ v) = Some v"
proof -
  have len: "length v = 11" using assms by (simp add: is_bare_id_def)
  have nb: "\<not> is_bare_id (''https://youtu.be/'' @ v)"
    by (simp add: is_bare_id_def)
  have 1: "search ''youtube.com/watch?v='' (''https://youtu.be/'' @ v) = None"
    by (rule search_short) (simp add: len)
  have "match_here ''youtu.be/'' (''youtu.be/'' @ v) = Some v"
    using assms by (rule match_here_id)
  then have 2: "search ''youtu.be/'' (''https://youtu.be/'' @ v) = Some v"
    by (simp add: match_here_def)
  show ?thesis using nb 1 2 by (simp add: extractVideoId_def patterns_def)
qed

lemma extract_embed:
  assumes "is_bare_id v"
  shows "extractVideoId (''https://www.youtube.com/embed/'' @ v) = Some v"
proof -
  have nb: "\<not> is_bare_id (''https://www.youtube.com/embed/'' @ v)"
    by (simp add: is_bare_id_def)
  have v1: "search ''youtube.com/watch?v='' v = None"
    by (rule search_absent [of "CHR ''.''"]) (simp_all add: bare_no_dot assms)
  have v2: "search ''youtu.be/'' v = None"
    by (rule search_absent [of "CHR ''.''"]) (simp_all add: bare_no_dot assms)
  have 1: "search ''youtube.com/watch?v='' (''https://www.youtube.com/embed/'' @ v) = None"
    using v1 by (simp add: match_here_def)
  have 2: "search ''youtu.be/'' (''https://www.youtube.com/embed/'' @ v) = None"
    using v2 by (simp add: match_here_def)
  have "match_here ''youtube.com/embed/'' (''youtube.com/embed/'' @ v) = Some v"
    using assms by (rule match_here_id)
  then have 3: "search ''youtube.com/embed/'' (''https://www.youtube.com/embed/'' @ v) = Some v"
    by (simp add: match_here_def)
  show ?thesis using nb 1 2 3 by (simp add: extractVideoId_def patterns_def)
qed

lemma id_char_not_space: "is_id_char c \<Longrightarrow> \<not> is_space c"
  by (auto simp: is_id_char_def is_space_def Let_def)

lemma dropWhile_hd: "xs \<noteq> [] \<Longrightarrow> \<not> P (hd xs) \<Longrightarrow> dropWhile P xs = xs"
  by (cases xs) auto

lemma trim_id:
  assumes "s \<noteq> []" "\<not> is_space (hd s)" "\<not> is_space (last s)"
  shows "trim s = s"
proof -
  have 1: "dropWhile is_space s = s" using assms(1,2) by (rule dropWhile_hd)
  have "hd (rev s) = last s" using assms(1) by (simp add: hd_rev)
  then have 2: "dropWhile is_space (rev s) = rev s"
    using assms(1,3) by (intro dropWhile_hd) auto
  show ?thesis by (simp add: trim_def 1 2)
qed

lemma trim_forms:
  assumes "is_bare_id v" and that: "pre = [] \<or> \<not> is_space (hd pre)"
  shows "trim (pre @ v) = pre @ v"
proof -
  have len: "length v = 11" and ids: "list_all is_id_char v" using assms by (simp_all add: is_bare_id_def)
  then have ne: "v \<noteq> []" by auto
  have l: "\<not> is_space (last v)" using ids ne by (simp add: list_all_iff id_char_not_space)
  have h: "\<not> is_space (hd v)" using ids ne by (simp add: list_all_iff id_char_not_space)
  have "\<not> is_space (hd (pre @ v))" using that h by (cases pre) auto
  then show ?thesis using ne l by (intro trim_id) auto
qed


lemma extract_forms:
  assumes "is_bare_id v"
    and "typed \<in> {v, ''https://www.youtube.com/watch?v='' @ v, ''https://youtu.be/'' @ v,
                  ''https://www.youtube.com/embed/'' @ v}"
  shows "extractVideoId typed = Some v"
  using assms extract_bare extract_watch extract_short extract_embed by auto

lemma form_present:
  assumes "extractVideoId (trim (newVideoId f)) = Some v" and "v \<noteq> []"
    and "list_ex (\<lambda>e. id' e = v) videos"
  shows "isl (SettingsPanel_handleAddVideo f videos)"
  using assms by (simp add: SettingsPanel_handleAddVideo_def)

lemma form_absent:
  assumes "extractVideoId (trim (newVideoId f)) = Some v" and "v \<noteq> []"
    and "\<not> list_ex (\<lambda>e. id' e = v) videos" and "trim (newVideoTitle f) \<noteq> []"
  shows "SettingsPanel_handleAddVideo f videos =
     Inr \<lparr>id' = v, title = trim (newVideoTitle f), emoji = newVideoEmoji f, color = selectedColor f\<rparr>"
  using assms by (simp add: SettingsPanel_handleAddVideo_def)

text \<open>
  Claim C7, as stated, fails in its last part: \<open>handleAddVideo\<close> of the navigation
  controller makes no check of its own.  Given an entry whose identifier is already in
  the library, it appends it, and the library holds the identifier twice.
\<close>

theorem add_video_counterexample:
  "videoLibrary (handleAddVideo \<lparr>id' = ''dQw4w9WgXcQ'', title = ''Song'', emoji = ''*'', color = ''#FF6B6B''\<rparr>
      (initial_app [\<lparr>id' = ''dQw4w9WgXcQ'', title = ''Song'', emoji = ''*'', color = ''#FF6B6B''\<rparr>]))
   = [\<lparr>id' = ''dQw4w9WgXcQ'', title = ''Song'', emoji = ''*'', color = ''#FF6B6B''\<rparr>,
      \<lparr>id' = ''dQw4w9WgXcQ'', title = ''Song'', emoji = ''*'', color = ''#FF6B6B''\<rparr>]"
  by (simp add: handleAddVideo_def initial_app_def)

text \<open>
  Claim C7, amended.  Let \<open>v\<close> be an 11-character identifier, typed into the add form
  (white space around it is trimmed) bare, as \<open>watch?v=\<close> URL, as \<open>youtu.be/\<close> URL or
  as \<open>embed/\<close> URL.  Trimming leaves each form as it is, and all four extract \<open>v\<close>.  If the library already holds \<open>v\<close>,
  the form ends with an error message and the library is unchanged; if it does not and
  the title is not blank, the entry with identifier \<open>v\<close> is appended.  The navigation
  controller's own \<open>handleAddVideo\<close> appends the entry it is given, whatever the library
  holds: duplicates are rejected by the form alone.
\<close>

theorem add_video_duplicates:
  assumes "is_bare_id v"
    and "typed \<in> {v, ''https://www.youtube.com/watch?v='' @ v, ''https://youtu.be/'' @ v,
                  ''https://www.youtube.com/embed/'' @ v}"
    and "trim (newVideoId f) = typed"
  shows "trim typed = typed
     \<and> extractVideoId typed = Some v
     \<and> (list_ex (\<lambda>e. id' e = v) (videoLibrary a) \<longrightarrow>
          isl (SettingsPanel_handleAddVideo f (videoLibrary a)) \<and> submit_add_form f a = a)
     \<and> (\<not> list_ex (\<lambda>e. id' e = v) (videoLibrary a) \<and> trim (newVideoTitle f) \<noteq> [] \<longrightarrow>
          submit_add_form f a =
            a\<lparr>videoLibrary := videoLibrary a @
                [\<lparr>id' = v, title = trim (newVideoTitle f), emoji = newVideoEmoji f,
                  color = selectedColor f\<rparr>]\<rparr>)
     \<and> (\<forall>e. videoLibrary (handleAddVideo e a) = videoLibrary a @ [e])"
proof -
  have x: "extractVideoId typed = Some v" using assms(1,2) by (rule extract_forms)
  then have x': "extractVideoId (trim (newVideoId f)) = Some v" using assms(3) by simp
  have ne: "v \<noteq> []" using assms(1) by (auto simp: is_bare_id_def)
  have p: "isl (SettingsPanel_handleAddVideo f (videoLibrary a)) \<and> submit_add_form f a = a"
    if "list_ex (\<lambda>e. id' e = v) (videoLibrary a)"
  proof -
    have "isl (SettingsPanel_handleAddVideo f (videoLibrary a))"
      using x' ne that by (rule form_present)
    then show ?thesis by (auto simp: submit_add_form_def isl_def)
  qed
  have q: "submit_add_form f a =
            a\<lparr>videoLibrary := videoLibrary a @
                [\<lparr>id' = v, title = trim (newVideoTitle f), emoji = newVideoEmoji f,
                  color = selectedColor f\<rparr>]\<rparr>"
    if "\<not> list_ex (\<lambda>e. id' e = v) (videoLibrary a)" "trim (newVideoTitle f) \<noteq> []"
    using form_absent [OF x' ne that] by (simp add: submit_add_form_def handleAddVideo_def)
  have r: "\<forall>e. videoLibrary (handleAddVideo e a) = videoLibrary a @ [e]"
    by (simp add: handleAddVideo_def)
  have t: "trim typed = typed"
  proof -
    have h: "\<not> is_space CHR ''h''" by (simp add: is_space_def)
    have "trim ([] @ v) = [] @ v" using assms(1) by (intro trim_forms) simp_all
    moreover have "trim (''https://www.youtube.com/watch?v='' @ v) = ''https://www.youtube.com/watch?v='' @ v"
      using assms(1) h by (intro trim_forms) simp_all
    moreover have "trim (''https://youtu.be/'' @ v) = ''https://youtu.be/'' @ v"
      using assms(1) h by (intro trim_forms) simp_all
    moreover have "trim (''https://www.youtube.com/embed/'' @ v) = ''https://www.youtube.com/embed/'' @ v"
      using assms(1) h by (intro trim_forms) simp_all
    ultimately show ?thesis using assms(2) by auto
  qed
  show ?thesis using t x p q r by blast
qed

lemma sample_id: "is_bare_id ''dQw4w9WgXcQ''"
  by (simp add: is_bare_id_def is_id_char_def)

lemma sample_trim: "trim '' https://youtu.be/dQw4w9WgXcQ  '' = ''https://youtu.be/dQw4w9WgXcQ''"
  by (simp add: trim_def is_space_def)

theorem add_video_duplicates_witness:
  "is_bare_id ''dQw4w9WgXcQ''
   \<and> trim '' https://youtu.be/dQw4w9WgXcQ  '' = ''https://youtu.be/'' @ ''dQw4w9WgXcQ''
   \<and> extractVideoId ''https://youtu.be/dQw4w9WgXcQ'' = Some ''dQw4w9WgXcQ''
   \<and> submit_add_form
        \<lparr>newVideoId = '' https://youtu.be/dQw4w9WgXcQ  '', newVideoTitle = ''Song'',
          newVideoEmoji = ''*'', selectedColor = ''#FF6B6B''\<rparr>
        (initial_app [\<lparr>id' = ''dQw4w9WgXcQ'', title = ''Old'', emoji = ''*'', color = ''#FF6B6B''\<rparr>])
      = initial_app [\<lparr>id' = ''dQw4w9WgXcQ'', title = ''Old'', emoji = ''*'', color = ''#FF6B6B''\<rparr>]"
proof -
  let ?f = "\<lparr>newVideoId = '' https://youtu.be/dQw4w9WgXcQ  '', newVideoTitle = ''Song'',
          newVideoEmoji = ''*'', selectedColor = ''#FF6B6B''\<rparr>"
  let ?a = "initial_app [\<lparr>id' = ''dQw4w9WgXcQ'', title = ''Old'', emoji = ''*'', color = ''#FF6B6B''\<rparr>]"
  have t: "trim (newVideoId ?f) = ''https://youtu.be/'' @ ''dQw4w9WgXcQ''"
    using sample_trim by simp
  have m: "''https://youtu.be/'' @ ''dQw4w9WgXcQ'' \<in> {''dQw4w9WgXcQ'',
      ''https://www.youtube.com/watch?v='' @ ''dQw4w9WgXcQ'', ''https://youtu.be/'' @ ''dQw4w9WgXcQ'',
      ''https://www.youtube.com/embed/'' @ ''dQw4w9WgXcQ''}"
    by simp
  have l: "list_ex (\<lambda>e. id' e = ''dQw4w9WgXcQ'') (videoLibrary ?a)"
    by (simp add: initial_app_def)
  show ?thesis
    using add_video_duplicates [OF sample_id m t, of ?a] l sample_id sample_trim by simp
qed

lemma match_here_well_formed: "match_here lit s = Some v \<Longrightarrow> is_bare_id v"
  by (auto simp: match_here_def is_bare_id_def Let_def split: if_splits)

lemma search_well_formed: "search lit s = Some v \<Longrightarrow> is_bare_id v"
  by (induction s) (auto simp: match_here_well_formed split: option.splits)

lemma first_match_well_formed: "first_match ps s = Some v \<Longrightarrow> is_bare_id v"
  by (induction ps) (auto simp: search_well_formed split: option.splits)

lemma extract_well_formed: "extractVideoId s = Some v \<Longrightarrow> is_bare_id v"
  by (auto simp: extractVideoId_def first_match_well_formed split: if_splits)

text \<open>
  Claim C10.  For every input, \<open>extractVideoId\<close> returns \<open>null\<close> or a text of exactly
  11 characters, each a letter, a digit, an underscore or a hyphen.  Hence every entry
  the add form hands to \<open>onAddVideo\<close> has such an identifier, and submitting the form
  either leaves the library as it is or appends one entry with such an identifier.
\<close>

theorem extractVideoId_well_formed:
  "(extractVideoId input = None
      \<or> (\<exists>v. extractVideoId input = Some v \<and> length v = 11 \<and> list_all is_id_char v))
   \<and> (\<forall>e. SettingsPanel_handleAddVideo f videos = Inr e \<longrightarrow>
          length (id' e) = 11 \<and> list_all is_id_char (id' e))
   \<and> (submit_add_form f a = a
        \<or> (\<exists>e. submit_add_form f a = a\<lparr>videoLibrary := videoLibrary a @ [e]\<rparr>
                \<and> length (id' e) = 11 \<and> list_all is_id_char (id' e)))"
proof -
  have 1: "extractVideoId input = None
      \<or> (\<exists>v. extractVideoId input = Some v \<and> length v = 11 \<and> list_all is_id_char v)"
    using extract_well_formed [of input] by (cases "extractVideoId input") (auto simp: is_bare_id_def)
  have 2: "length (id' e) = 11 \<and> list_all is_id_char (id' e)"
    if acc: "SettingsPanel_handleAddVideo f videos = Inr e" for e videos
  proof -
    obtain v where v: "extractVideoId (trim (newVideoId f)) = Some v" and e: "id' e = v"
      using acc by (auto simp: SettingsPanel_handleAddVideo_def split: option.splits if_splits)
    show ?thesis using extract_well_formed [OF v] e by (simp add: is_bare_id_def)
  qed
  have 3: "submit_add_form f a = a
        \<or> (\<exists>e. submit_add_form f a = a\<lparr>videoLibrary := videoLibrary a @ [e]\<rparr>
                \<and> length (id' e) = 11 \<and> list_all is_id_char (id' e))"
  proof (cases "SettingsPanel_handleAddVideo f (videoLibrary a)")
    case (Inl err)
    then show ?thesis by (simp add: submit_add_form_def)
  next
    case (Inr e)
    then have "submit_add_form f a = a\<lparr>videoLibrary := videoLibrary a @ [e]\<rparr>"
      by (simp add: submit_add_form_def handleAddVideo_def)
    then show ?thesis using 2 [OF Inr] by blast
  qed
  show ?thesis using 1 2 3 by blast
qed

theorem extractVideoId_well_formed_witness:
  "extractVideoId ''https://youtu.be/dQw4w9WgXcQ'' = Some ''dQw4w9WgXcQ''
   \<and> length ''dQw4w9WgXcQ'' = 11 \<and> list_all is_id_char ''dQw4w9WgXcQ''
   \<and> extractVideoId ''https://youtu.be/dQw4w9WgXc'' = None
   \<and> SettingsPanel_handleAddVideo
        \<lparr>newVideoId = '' https://youtu.be/dQw4w9WgXcQ  '', newVideoTitle = ''Song'',
          newVideoEmoji = ''*'', selectedColor = ''#FF6B6B''\<rparr> []
      = Inr \<lparr>id' = ''dQw4w9WgXcQ'', title = ''Song'', emoji = ''*'', color = ''#FF6B6B''\<rparr>"
proof -
  let ?f = "\<lparr>newVideoId = '' https://youtu.be/dQw4w9WgXcQ  '', newVideoTitle = ''Song'',
          newVideoEmoji = ''*'', selectedColor = ''#FF6B6B''\<rparr>"
  have x: "extractVideoId ''https://youtu.be/dQw4w9WgXcQ'' = Some ''dQw4w9WgXcQ''"
    using extract_short [OF sample_id] by simp
  have n: "extractVideoId ''https://youtu.be/dQw4w9WgXc'' = None"
    by (simp add: extractVideoId_def is_bare_id_def patterns_def match_here_def)
  have t: "trim ''Song'' = ''Song''" by (simp add: trim_def is_space_def)
  have h: "SettingsPanel_handleAddVideo ?f []
      = Inr \<lparr>id' = ''dQw4w9WgXcQ'', title = ''Song'', emoji = ''*'', color = ''#FF6B6B''\<rparr>"
    by (simp add: SettingsPanel_handleAddVideo_def sample_trim x t)
  have "length ''dQw4w9WgXcQ'' = 11 \<and> list_all is_id_char ''dQw4w9WgXcQ''"
    using extractVideoId_well_formed [of "''https://youtu.be/dQw4w9WgXcQ''" ?f "[]" "initial_app []"] x h
    by simp
  then show ?thesis using x n h by blast
qed

section \<open>Properties of the hold button and of the cancel delay\<close>

lemmas page_defs = run_def step_def rerender_def unmount_def mount_def clearInterval_def
  startHold_def stopHold_def interval_callback_def initial_page_def initial_app_def
  handleSettingsRequest_def handleParentalGateSuccess_def handleParentalGateCancel_def
  handleSettingsClose_def initial_gate_def UPDATE_INTERVAL_def Let_def

lemmas gate_defs = handleInputChange_def handleSubmit_def can_submit_def parseInt_def
  is_space_def is_digit_def digits_value_def digit_val_def

lemma run_append: "run s (es @ fs) = run (run s es) fs"
  by (simp add: run_def)

lemma run_Cons: "run s (e # es) = run (step s e) es"
  by (simp add: run_def)

lemma run_Nil: "run s [] = s"
  by (simp add: run_def)

lemma tick_running:
  assumes "mounted s = Some k" "k < length (instances s)" "showParentalGate (app_state s)"
    and "e + 50 < 3000"
  shows "step (with_interval s i k e) (IntervalFires i) = with_interval s i k (e + 50)"
proof -
  have "\<not> HOLD_DURATION \<le> e + 50" using assms(4) by (simp add: HOLD_DURATION_def)
  then show ?thesis using assms(1-3) by (simp add: with_interval_def page_defs)
qed

lemma ticks_running:
  assumes "mounted s = Some k" "k < length (instances s)" "showParentalGate (app_state s)"
  shows "e + 50 * n < 3000 \<Longrightarrow>
    run (with_interval s i k e) (replicate n (IntervalFires i)) = with_interval s i k (e + 50 * n)"
proof (induction n arbitrary: e)
  case 0
  then show ?case by (simp add: run_Nil)
next
  case (Suc n)
  have "e + 50 < 3000" using Suc.prems by simp
  then have "step (with_interval s i k e) (IntervalFires i) = with_interval s i k (e + 50)"
    using assms by (intro tick_running)
  moreover have "run (with_interval s i k (e + 50)) (replicate n (IntervalFires i))
      = with_interval s i k (e + 50 + 50 * n)"
    using Suc.prems by (intro Suc.IH) simp
  ultimately show ?case by (simp add: run_Cons add.assoc)
qed

lemma tick_completes_leaked:
  assumes "mounted s = Some k" "k < length (instances s)" "showParentalGate (app_state s)"
    and "intervalRef (hold (instances s ! k)) = Some j" "j \<noteq> i"
  shows "step (with_interval s i k 2950) (IntervalFires i) =
     (with_interval s i k 3000)
       \<lparr>app_state := handleParentalGateSuccess (app_state s), mounted := None\<rparr>"
proof -
  have "HOLD_DURATION \<le> 2950 + 50" by (simp add: HOLD_DURATION_def)
  then show ?thesis using assms by (simp add: with_interval_def page_defs)
qed

lemma tick_completes_held:
  assumes "mounted s = Some k" "k < length (instances s)" "showParentalGate (app_state s)"
    and "intervalRef (hold (instances s ! k)) = Some i"
  shows "step (with_interval s i k 2950) (IntervalFires i) =
     (with_interval s i k 3000)
       \<lparr>intervals := [], app_state := handleParentalGateSuccess (app_state s), mounted := None\<rparr>"
proof -
  have "HOLD_DURATION \<le> 2950 + 50" by (simp add: HOLD_DURATION_def)
  then show ?thesis using assms by (simp add: with_interval_def page_defs)
qed


lemma replicate_60: "replicate 60 x = replicate 59 x @ [x]"
proof -
  have "replicate 60 x = replicate (Suc 59) x" by (rule arg_cong [where f = "\<lambda>n. replicate n x"]) simp
  also have "\<dots> = replicate 59 x @ [x]" by (simp only: replicate_Suc replicate_append_same)
  finally show ?thesis .
qed


lemma start_single:
  assumes "mounted s = Some k" "k < length (instances s)" "showParentalGate (app_state s)"
    and "intervals s = []"
  shows "step s HoldDown = with_interval (startHold k s) (next_timer s) k 0"
  using assms by (simp add: with_interval_def page_defs)

lemma startHold_fields:
  "mounted (startHold k s) = mounted s"
  "app_state (startHold k s) = app_state s"
  "length (instances (startHold k s)) = length (instances s)"
  "k < length (instances s) \<Longrightarrow> intervalRef (hold (instances (startHold k s) ! k)) = Some (next_timer s)"
  by (simp_all add: startHold_def Let_def)

text \<open>
  A single press behaves as the hold button is documented.  On a page that shows a gate
  and has no live interval, a press held for sixty runs of the interval's callback
  (3000 ms) fires success and closes the gate; a press released after fewer runs
  leaves the navigation state as it was, with no live interval, no hold and no progress.
  Neither depends on the form of the gate, so not on its attempt counter.
\<close>

lemma single_press_completed:
  assumes "mounted s = Some k" "k < length (instances s)" "showParentalGate (app_state s)"
    and "intervals s = []"
  shows "run s (HoldDown # replicate 60 (IntervalFires (next_timer s))) =
     (with_interval (startHold k s) (next_timer s) k 3000)
       \<lparr>intervals := [], app_state := handleParentalGateSuccess (app_state s), mounted := None\<rparr>"
proof -
  let ?i = "next_timer s" and ?s = "startHold k s"
  have m: "mounted ?s = Some k" "k < length (instances ?s)" "showParentalGate (app_state ?s)"
    using assms by (simp_all add: startHold_fields)
  have r: "intervalRef (hold (instances ?s ! k)) = Some ?i"
    using assms(2) by (rule startHold_fields)
  have "replicate 60 (IntervalFires ?i) = replicate 59 (IntervalFires ?i) @ [IntervalFires ?i]"
    by (rule replicate_60)
  then have "run s (HoldDown # replicate 60 (IntervalFires ?i))
      = step (run (with_interval ?s ?i k 0) (replicate 59 (IntervalFires ?i))) (IntervalFires ?i)"
    using start_single [OF assms] by (simp add: run_Cons run_append run_Nil)
  also have "run (with_interval ?s ?i k 0) (replicate 59 (IntervalFires ?i))
      = with_interval ?s ?i k (0 + 50 * 59)"
    using m by (intro ticks_running) simp_all
  finally show ?thesis
    using tick_completes_held [OF m r] by (simp add: startHold_fields)
qed

lemma single_press_released:
  assumes "mounted s = Some k" "k < length (instances s)" "showParentalGate (app_state s)"
    and "intervals s = []" and "n < 60"
  shows "run s (HoldDown # replicate n (IntervalFires (next_timer s)) @ [HoldUp]) =
     s\<lparr>instances := (instances s)
          [k := (instances s ! k)
             \<lparr>hold := \<lparr>progress = 0, isHolding = False, intervalRef = Some (next_timer s)\<rparr>\<rparr>],
       next_timer := next_timer s + 1\<rparr>"
proof -
  let ?i = "next_timer s" and ?s = "startHold k s"
  have m: "mounted ?s = Some k" "k < length (instances ?s)" "showParentalGate (app_state ?s)"
    using assms by (simp_all add: startHold_fields)
  have "run s (HoldDown # replicate n (IntervalFires ?i) @ [HoldUp])
      = step (run (with_interval ?s ?i k 0) (replicate n (IntervalFires ?i))) HoldUp"
    using start_single [OF assms(1-4)] by (simp add: run_Cons run_append run_Nil)
  also have "run (with_interval ?s ?i k 0) (replicate n (IntervalFires ?i))
      = with_interval ?s ?i k (0 + 50 * n)"
    using m assms(5) by (intro ticks_running) simp_all
  finally show ?thesis
    using assms(1-4) by (simp add: with_interval_def page_defs)
qed

lemma two_presses_released:
  "run (initial_page []) [SettingsClick (1/2) (1/2) (1/4), HoldDown, HoldDown, HoldUp, HoldUp] =
     \<lparr>app_state = \<lparr>currentView = Grid, selectedVideo = None, showParentalGate = True, videoLibrary = []\<rparr>,
      instances = [\<lparr>form = \<lparr>problem = \<lparr>num1 = 35, num2 = 8, operation = Some Minus, answer = 27\<rparr>,
                            userAnswer = [], attempts = 0, showError = False\<rparr>,
                    hold = \<lparr>progress = 0, isHolding = False, intervalRef = Some 2\<rparr>\<rparr>],
      mounted = Some 0, intervals = [\<lparr>timer_id = 1, owner = 0, elapsed = 0\<rparr>], timeouts = [], next_timer = 3\<rparr>"
  by (simp add: page_defs sample_problem)

text \<open>
  Claim C3 fails on the code.  \<open>startHold\<close> stores the id of its new interval in
  \<open>intervalRef\<close> without clearing the interval that is running, and \<open>stopHold\<close> clears
  only the id stored last.  Two presses that overlap (a second finger or a second mouse
  button goes down before the first is released) leave the first interval running after
  both are released.  Here the gate is opened and the button is pressed twice and
  released twice: the button shows no hold and no progress and the grid is still on
  screen; sixty runs of the first interval's callback later the settings view is open
  and the gate is gone, though nothing was held.
\<close>

theorem released_hold_fires_success:
  "\<not> isHolding (hold (instances (run (initial_page [])
        [SettingsClick (1/2) (1/2) (1/4), HoldDown, HoldDown, HoldUp, HoldUp]) ! 0))
   \<and> progress (hold (instances (run (initial_page [])
        [SettingsClick (1/2) (1/2) (1/4), HoldDown, HoldDown, HoldUp, HoldUp]) ! 0)) = 0
   \<and> currentView (app_state (run (initial_page [])
        [SettingsClick (1/2) (1/2) (1/4), HoldDown, HoldDown, HoldUp, HoldUp])) = Grid
   \<and> currentView (app_state (run (initial_page [])
        ([SettingsClick (1/2) (1/2) (1/4), HoldDown, HoldDown, HoldUp, HoldUp]
          @ replicate 60 (IntervalFires 1)))) = Settings
   \<and> mounted (run (initial_page [])
        ([SettingsClick (1/2) (1/2) (1/4), HoldDown, HoldDown, HoldUp, HoldUp]
          @ replicate 60 (IntervalFires 1))) = None"
proof -
  let ?L = "run (initial_page []) [SettingsClick (1/2) (1/2) (1/4), HoldDown, HoldDown, HoldUp, HoldUp]"
  have L: "?L = with_interval ?L 1 0 0"
    unfolding two_presses_released by (simp add: with_interval_def)
  have m: "mounted ?L = Some 0" "0 < length (instances ?L)" "showParentalGate (app_state ?L)"
    and r: "intervalRef (hold (instances ?L ! 0)) = Some 2"
    unfolding two_presses_released by simp_all
  have "replicate 60 (IntervalFires 1) = replicate 59 (IntervalFires 1) @ [IntervalFires 1]"
    by (rule replicate_60)
  then have "run ?L (replicate 60 (IntervalFires 1))
      = step (run (with_interval ?L 1 0 0) (replicate 59 (IntervalFires 1))) (IntervalFires 1)"
    using L by (simp add: run_append run_Cons run_Nil)
  also have "run (with_interval ?L 1 0 0) (replicate 59 (IntervalFires 1))
      = with_interval ?L 1 0 (0 + 50 * 59)"
    using m by (intro ticks_running) simp_all
  finally have e: "run ?L (replicate 60 (IntervalFires 1)) =
      (with_interval ?L 1 0 3000)\<lparr>app_state := handleParentalGateSuccess (app_state ?L), mounted := None\<rparr>"
    using tick_completes_leaked [OF m r, of 1] by simp
  have 1: "currentView (app_state (run ?L (replicate 60 (IntervalFires 1)))) = Settings"
    and 2: "mounted (run ?L (replicate 60 (IntervalFires 1))) = None"
    unfolding e by (simp_all add: handleParentalGateSuccess_def)
  have 3: "\<not> isHolding (hold (instances ?L ! 0))" "progress (hold (instances ?L ! 0)) = 0"
      "currentView (app_state ?L) = Grid"
    unfolding two_presses_released by simp_all
  show ?thesis unfolding run_append using 1 2 3 by blast
qed


text \<open>
  On the page a text with a hyphen is never handed to \<open>handleSubmit\<close>: a click on
  Verify leaves the page as it is, the attempt counter included.
\<close>

lemma hyphen_text_not_submitted:
  "run (initial_page []) [SettingsClick (1/2) (1/2) (1/4), InputChange ''-5'', Submit] =
   run (initial_page []) [SettingsClick (1/2) (1/2) (1/4), InputChange ''-5'']"
  by (simp add: page_defs gate_defs sample_problem)

lemma three_wrong_page:
  "run (initial_page []) [SettingsClick (1/2) (1/2) (1/4), InputChange ''0'', Submit,
       InputChange ''1'', Submit, InputChange ''2'', Submit] =
     \<lparr>app_state = \<lparr>currentView = Grid, selectedVideo = None, showParentalGate = True, videoLibrary = []\<rparr>,
      instances = [\<lparr>form = \<lparr>problem = \<lparr>num1 = 35, num2 = 8, operation = Some Minus, answer = 27\<rparr>,
                            userAnswer = [], attempts = 3, showError = True\<rparr>,
                    hold = \<lparr>progress = 0, isHolding = False, intervalRef = None\<rparr>\<rparr>],
      mounted = Some 0, intervals = [], timeouts = [1500], next_timer = 1\<rparr>"
  by (simp add: page_defs gate_defs sample_problem)

text \<open>
  Claim C9 fails on the code.  Every wrong submission from the third on arms a new
  timeout, and nothing ever disarms one.  After three wrong submissions a fourth leaves
  two timeouts pending.  After three wrong submissions and a click on Cancel the gate
  is closed while the timeout is still pending; when the gate is opened again it is a
  fresh one, with no attempt made, and the old timeout then closes it.
\<close>

theorem cancel_delay_outlives_gate:
  "timeouts (run (initial_page []) [SettingsClick (1/2) (1/2) (1/4), InputChange ''0'', Submit,
       InputChange ''1'', Submit, InputChange ''2'', Submit, InputChange ''3'', Submit]) = [1500, 1500]
   \<and> mounted (run (initial_page []) [SettingsClick (1/2) (1/2) (1/4), InputChange ''0'', Submit,
       InputChange ''1'', Submit, InputChange ''2'', Submit, CancelClick]) = None
   \<and> timeouts (run (initial_page []) [SettingsClick (1/2) (1/2) (1/4), InputChange ''0'', Submit,
       InputChange ''1'', Submit, InputChange ''2'', Submit, CancelClick]) = [1500]
   \<and> mounted (run (initial_page []) [SettingsClick (1/2) (1/2) (1/4), InputChange ''0'', Submit,
       InputChange ''1'', Submit, InputChange ''2'', Submit, CancelClick,
       SettingsClick (1/4) (1/2) (1/2)]) = Some 1
   \<and> attempts (form (instances (run (initial_page []) [SettingsClick (1/2) (1/2) (1/4),
       InputChange ''0'', Submit, InputChange ''1'', Submit, InputChange ''2'', Submit, CancelClick,
       SettingsClick (1/4) (1/2) (1/2)]) ! 1)) = 0
   \<and> mounted (run (initial_page []) [SettingsClick (1/2) (1/2) (1/4), InputChange ''0'', Submit,
       InputChange ''1'', Submit, InputChange ''2'', Submit, CancelClick,
       SettingsClick (1/4) (1/2) (1/2), TimeoutFires]) = None"
proof -
  let ?w = "[SettingsClick (1/2) (1/2) (1/4), InputChange ''0'', Submit,
       InputChange ''1'', Submit, InputChange ''2'', Submit]"
  have a: "timeouts (run (run (initial_page []) ?w) [InputChange ''3'', Submit]) = [1500, 1500]"
    unfolding three_wrong_page by (simp add: page_defs gate_defs)
  have b: "mounted (run (run (initial_page []) ?w) [CancelClick]) = None"
      "timeouts (run (run (initial_page []) ?w) [CancelClick]) = [1500]"
    unfolding three_wrong_page by (simp_all add: page_defs)
  have c: "mounted (run (run (initial_page []) ?w) [CancelClick, SettingsClick (1/4) (1/2) (1/2)]) = Some 1"
      "attempts (form (instances (run (run (initial_page []) ?w)
          [CancelClick, SettingsClick (1/4) (1/2) (1/2)]) ! 1)) = 0"
    unfolding three_wrong_page by (simp_all add: page_defs)
  have d: "mounted (run (run (initial_page []) ?w)
      [CancelClick, SettingsClick (1/4) (1/2) (1/2), TimeoutFires]) = None"
    unfolding three_wrong_page by (simp add: page_defs)
  have ap: "\<And>es. run (initial_page []) (?w @ es) = run (run (initial_page []) ?w) es"
    by (rule run_append)
  show ?thesis
    using a b c d ap [of "[InputChange ''3'', Submit]"] ap [of "[CancelClick]"]
      ap [of "[CancelClick, SettingsClick (1/4) (1/2) (1/2)]"]
      ap [of "[CancelClick, SettingsClick (1/4) (1/2) (1/2), TimeoutFires]"]
    by simp
qed


section \<open>The fuel of the parser\<close>

text \<open>
  More fuel never changes a result, and a parse that succeeds with some fuel succeeds
  with as much fuel as it consumes characters.  So \<open>JSON_parse\<close>, which gives the length
  of the text as fuel, accepts exactly the texts that parse with some fuel: it never
  rejects a text for lack of fuel.
\<close>

lemma below_refl: "below a a"
  by (simp add: below_def)

lemma below_None: "below None b"
  by (simp add: below_def)

lemma below_apfst: "below a b \<Longrightarrow> below (apfst_opt f a) (apfst_opt f b)"
  by (auto simp: below_def apfst_opt_def)

lemma below_prepend: "below a b \<Longrightarrow> below (prepend x a) (prepend x b)"
  by (auto simp: below_def prepend_def)

lemma below_bind:
  "below a b \<Longrightarrow> (\<And>x. below (f x) (g x)) \<Longrightarrow>
   below (case a of None \<Rightarrow> None | Some x \<Rightarrow> f x) (case b of None \<Rightarrow> None | Some x \<Rightarrow> g x)"
  by (auto simp: below_def split: option.splits)

lemma below_values:
  assumes "\<And>t. below (parse_elements n t) (parse_elements (Suc n) t)"
    and "\<And>t. below (parse_members n t) (parse_members (Suc n) t)"
  shows "below (parse_value (Suc n) s) (parse_value (Suc (Suc n)) s)"
  by (simp add: below_refl below_None below_apfst assms split: list.split
      del: parse_elements.simps parse_members.simps)

lemma below_elements_rest:
  assumes "\<And>t. below (parse_elements n t) (parse_elements (Suc n) t)"
  shows "below
     (case skip_ws r of [] \<Rightarrow> None
      | c # r' \<Rightarrow> if c = CHR '','' then prepend v (parse_elements n r')
                  else if c = CHR '']'' then Some ([v], r') else None)
     (case skip_ws r of [] \<Rightarrow> None
      | c # r' \<Rightarrow> if c = CHR '','' then prepend v (parse_elements (Suc n) r')
                  else if c = CHR '']'' then Some ([v], r') else None)"
  by (simp add: below_refl below_None below_prepend assms split: list.split
      del: parse_elements.simps)

lemma below_elements:
  assumes "\<And>t. below (parse_value n t) (parse_value (Suc n) t)"
    and "\<And>t. below (parse_elements n t) (parse_elements (Suc n) t)"
  shows "below (parse_elements (Suc n) s) (parse_elements (Suc (Suc n)) s)"
proof -
  have "below
     (case parse_value n s of None \<Rightarrow> None
      | Some x \<Rightarrow> (case x of (v, r) \<Rightarrow>
          (case skip_ws r of [] \<Rightarrow> None
           | c # r' \<Rightarrow> if c = CHR '','' then prepend v (parse_elements n r')
                       else if c = CHR '']'' then Some ([v], r') else None)))
     (case parse_value (Suc n) s of None \<Rightarrow> None
      | Some x \<Rightarrow> (case x of (v, r) \<Rightarrow>
          (case skip_ws r of [] \<Rightarrow> None
           | c # r' \<Rightarrow> if c = CHR '','' then prepend v (parse_elements (Suc n) r')
                       else if c = CHR '']'' then Some ([v], r') else None)))"
  proof (rule below_bind [OF assms(1)])
    fix x :: "json \<times> string"
    obtain v r where x: "x = (v, r)" by (cases x)
    show "below
      (case x of (v, r) \<Rightarrow>
          (case skip_ws r of [] \<Rightarrow> None
           | c # r' \<Rightarrow> if c = CHR '','' then prepend v (parse_elements n r')
                       else if c = CHR '']'' then Some ([v], r') else None))
      (case x of (v, r) \<Rightarrow>
          (case skip_ws r of [] \<Rightarrow> None
           | c # r' \<Rightarrow> if c = CHR '','' then prepend v (parse_elements (Suc n) r')
                       else if c = CHR '']'' then Some ([v], r') else None))"
      unfolding x prod.case using assms(2) by (rule below_elements_rest)
  qed
  then show ?thesis
    by (subst parse_elements.simps(2), subst parse_elements.simps(2))
qed


lemma below_members_rest:
  assumes "\<And>t. below (parse_members n t) (parse_members (Suc n) t)"
  shows "below
     (case skip_ws r of [] \<Rightarrow> None
      | c # r' \<Rightarrow> if c = CHR '','' then prepend kv (parse_members n r')
                  else if c = CHR ''}'' then Some ([kv], r') else None)
     (case skip_ws r of [] \<Rightarrow> None
      | c # r' \<Rightarrow> if c = CHR '','' then prepend kv (parse_members (Suc n) r')
                  else if c = CHR ''}'' then Some ([kv], r') else None)"
  by (simp add: below_refl below_None below_prepend assms split: list.split
      del: parse_members.simps)

lemma below_members:
  assumes "\<And>t. below (parse_value n t) (parse_value (Suc n) t)"
    and "\<And>t. below (parse_members n t) (parse_members (Suc n) t)"
  shows "below (parse_members (Suc n) s) (parse_members (Suc (Suc n)) s)"
proof (cases "parse_key s")
  case None
  then show ?thesis by (subst parse_members.simps(2)) (simp only: option.case below_None)
next
  case (Some kr)
  obtain k r where kr: "kr = (k, r)" by (cases kr)
  have "below
     (case parse_value n r of None \<Rightarrow> None
      | Some x \<Rightarrow> (case x of (v, r') \<Rightarrow>
          (case skip_ws r' of [] \<Rightarrow> None
           | c # r'' \<Rightarrow> if c = CHR '','' then prepend (k, v) (parse_members n r'')
                       else if c = CHR ''}'' then Some ([(k, v)], r'') else None)))
     (case parse_value (Suc n) r of None \<Rightarrow> None
      | Some x \<Rightarrow> (case x of (v, r') \<Rightarrow>
          (case skip_ws r' of [] \<Rightarrow> None
           | c # r'' \<Rightarrow> if c = CHR '','' then prepend (k, v) (parse_members (Suc n) r'')
                       else if c = CHR ''}'' then Some ([(k, v)], r'') else None)))"
  proof (rule below_bind [OF assms(1)])
    fix x :: "json \<times> string"
    obtain v r' where x: "x = (v, r')" by (cases x)
    show "below
      (case x of (v, r') \<Rightarrow>
          (case skip_ws r' of [] \<Rightarrow> None
           | c # r'' \<Rightarrow> if c = CHR '','' then prepend (k, v) (parse_members n r'')
                       else if c = CHR ''}'' then Some ([(k, v)], r'') else None))
      (case x of (v, r') \<Rightarrow>
          (case skip_ws r' of [] \<Rightarrow> None
           | c # r'' \<Rightarrow> if c = CHR '','' then prepend (k, v) (parse_members (Suc n) r'')
                       else if c = CHR ''}'' then Some ([(k, v)], r'') else None))"
      unfolding x prod.case using assms(2) by (rule below_members_rest)
  qed
  then show ?thesis
    by (subst parse_members.simps(2), subst parse_members.simps(2)) (simp only: Some kr option.case prod.case)
qed

lemma fuel_step:
  "below (parse_value n s) (parse_value (Suc n) s)
   \<and> below (parse_elements n s) (parse_elements (Suc n) s)
   \<and> below (parse_members n s) (parse_members (Suc n) s)"
proof (induction n arbitrary: s)
  case 0
  then show ?case by (simp add: below_None)
next
  case (Suc n)
  then show ?case by (intro conjI below_values below_elements below_members) blast+
qed

lemma fuel_mono: "parse_value n s = Some x \<Longrightarrow> n \<le> m \<Longrightarrow> parse_value m s = Some x"
proof (induction m)
  case 0
  then show ?case by simp
next
  case (Suc m)
  show ?case
  proof (cases "n = Suc m")
    case True
    then show ?thesis using Suc.prems by simp
  next
    case False
    then have "parse_value m s = Some x" using Suc by simp
    then show ?thesis using fuel_step [of m s] by (simp add: below_def del: parse_value.simps)
  qed
qed


lemma fuel_mono_elements:
  "parse_elements n s = Some x \<Longrightarrow> n \<le> m \<Longrightarrow> parse_elements m s = Some x"
proof (induction m)
  case 0
  then show ?case by simp
next
  case (Suc m)
  show ?case
  proof (cases "n = Suc m")
    case True
    then show ?thesis using Suc.prems by simp
  next
    case False
    then have "parse_elements m s = Some x" using Suc by simp
    then show ?thesis using fuel_step [of m s] by (simp add: below_def del: parse_elements.simps)
  qed
qed

lemma fuel_mono_members:
  "parse_members n s = Some x \<Longrightarrow> n \<le> m \<Longrightarrow> parse_members m s = Some x"
proof (induction m)
  case 0
  then show ?case by simp
next
  case (Suc m)
  show ?case
  proof (cases "n = Suc m")
    case True
    then show ?thesis using Suc.prems by simp
  next
    case False
    then have "parse_members m s = Some x" using Suc by simp
    then show ?thesis using fuel_step [of m s] by (simp add: below_def del: parse_members.simps)
  qed
qed

lemma prepend_Some: "prepend x r = Some (ys, rest) \<longleftrightarrow> (\<exists>xs. r = Some (xs, rest) \<and> ys = x # xs)"
  by (auto simp: prepend_def split: option.splits)

lemma apfst_opt_Some: "apfst_opt f r = Some (y, rest) \<longleftrightarrow> (\<exists>x. r = Some (x, rest) \<and> y = f x)"
  by (auto simp: apfst_opt_def split: option.splits)

lemma parse_chars_shorter: "parse_chars s = Some (x, r) \<Longrightarrow> length r < length s"
proof (induction s arbitrary: x r rule: parse_chars.induct)
  case 1
  then show ?case by simp
next
  case (2 c r0)
  show ?case
    using "2.prems" "2.IH"
    by (auto simp: prepend_Some split: if_splits list.splits option.splits) fastforce+
qed

lemma length_dropWhile_less: "takeWhile P xs \<noteq> [] \<Longrightarrow> length (dropWhile P xs) < length xs"
  by (cases xs) (auto simp: less_Suc_eq_le length_dropWhile_le split: if_splits)

lemma opt_frac_shorter: "opt_frac s = Some (x, r) \<Longrightarrow> length r \<le> length s"
  by (auto simp: opt_frac_def less_Suc_eq_le length_dropWhile_le le_SucI split: list.splits if_splits)

lemma opt_exp_shorter: "opt_exp s = Some (x, r) \<Longrightarrow> length r \<le> length s"
proof -
  assume a: "opt_exp s = Some (x, r)"
  show ?thesis
  proof (cases s)
    case Nil
    then show ?thesis using a by (simp add: opt_exp_def)
  next
    case (Cons c t)
    show ?thesis
    proof (cases "c = CHR ''e'' \<or> c = CHR ''E''")
      case False
      then show ?thesis using a Cons by (auto simp: opt_exp_def)
    next
      case True
      then obtain k where "r = dropWhile is_digit (drop k t)"
        using a Cons by (auto simp: opt_exp_def Let_def split: if_splits)
      then have "length r \<le> length (drop k t)" using length_dropWhile_le [of is_digit "drop k t"] by simp
      then show ?thesis using Cons by simp
    qed
  qed
qed

lemma parse_number_shorter: "parse_number s = Some (x, r) \<Longrightarrow> length r < length s"
proof -
  assume a: "parse_number s = Some (x, r)"
  define sg where "sg = (case s of c # _ \<Rightarrow> if c = CHR ''-'' then [c] else [] | [] \<Rightarrow> [])"
  define s1 where "s1 = drop (length sg) s"
  from a have ne: "takeWhile is_digit s1 \<noteq> []"
    by (auto simp: parse_number_def Let_def sg_def s1_def split: if_splits)
  from a obtain fr s2 ex where f: "opt_frac (dropWhile is_digit s1) = Some (fr, s2)"
    and e: "opt_exp s2 = Some (ex, r)"
    by (auto simp: parse_number_def Let_def sg_def s1_def split: if_splits option.splits)
  have "length r \<le> length s2" using e by (rule opt_exp_shorter)
  also have "\<dots> \<le> length (dropWhile is_digit s1)" using f by (rule opt_frac_shorter)
  also have "\<dots> < length s1" using ne by (rule length_dropWhile_less)
  also have "\<dots> \<le> length s" by (simp add: s1_def)
  finally show ?thesis .
qed

lemma skip_ws_length: "length (skip_ws s) \<le> length s"
  by (simp add: skip_ws_def length_dropWhile_le)

lemma parse_scalar_shorter: "parse_scalar s = Some (v, r) \<Longrightarrow> length r < length s"
proof -
  assume a: "parse_scalar s = Some (v, r)"
  consider "take 1 s = [dquote]" "apfst_opt JString (parse_chars (drop 1 s)) = Some (v, r)"
    | "take 4 s = ''true''" "r = drop 4 s"
    | "take 5 s = ''false''" "r = drop 5 s"
    | "take 4 s = ''null''" "r = drop 4 s"
    | "apfst_opt JNumber (parse_number s) = Some (v, r)"
    using a by (auto simp: parse_scalar_def split: if_splits)
  then show ?thesis
  proof cases
    case 1
    then obtain x where "parse_chars (drop 1 s) = Some (x, r)" by (auto simp: apfst_opt_Some)
    then have "length r < length (drop 1 s)" by (rule parse_chars_shorter)
    then show ?thesis by simp
  next
    case 2
    have "length (take 4 s) = 4" using 2(1) by simp
    then have "4 \<le> length s" by (auto simp: min_def split: if_splits)
    then show ?thesis using 2(2) by simp
  next
    case 3
    have "length (take 5 s) = 5" using 3(1) by simp
    then have "5 \<le> length s" by (auto simp: min_def split: if_splits)
    then show ?thesis using 3(2) by simp
  next
    case 4
    have "length (take 4 s) = 4" using 4(1) by simp
    then have "4 \<le> length s" by (auto simp: min_def split: if_splits)
    then show ?thesis using 4(2) by simp
  next
    case 5
    then obtain x where "parse_number s = Some (x, r)" by (auto simp: apfst_opt_Some)
    then show ?thesis by (rule parse_number_shorter)
  qed
qed

lemma parse_key_shorter: "parse_key s = Some (k, r) \<Longrightarrow> length r < length s"
proof -
  assume a: "parse_key s = Some (k, r)"
  then obtain q t k' r1 where 1: "skip_ws s = q # t" and 2: "parse_chars t = Some (k', r1)"
    and 3: "skip_ws r1 = CHR '':'' # r"
    by (auto simp: parse_key_def split: list.splits if_splits option.splits)
  have "length r < length (skip_ws r1)" using 3 by simp
  also have "\<dots> \<le> length r1" by (rule skip_ws_length)
  also have "\<dots> < length t" using 2 by (rule parse_chars_shorter)
  also have "\<dots> < length (skip_ws s)" using 1 by simp
  also have "\<dots> \<le> length s" by (rule skip_ws_length)
  finally show ?thesis .
qed


lemma fuel_bound_value:
  assumes e: "\<And>t vs r. parse_elements n t = Some (vs, r) \<Longrightarrow>
      length r < length t \<and> parse_elements (length t - length r) t = Some (vs, r)"
    and m: "\<And>t ms r. parse_members n t = Some (ms, r) \<Longrightarrow>
      length r < length t \<and> parse_members (length t - length r) t = Some (ms, r)"
    and h: "parse_value (Suc n) s = Some (v, rest)"
  shows "length rest < length s \<and> parse_value (length s - length rest) s = Some (v, rest)"
proof -
  obtain c r where sk: "skip_ws s = c # r"
    using h by (cases "skip_ws s") simp_all
  have ls: "Suc (length r) \<le> length s"
    using skip_ws_length [of s] sk by simp
  consider (obj) "c = CHR ''{''" | (arr) "c = CHR ''[''" | (scalar) "c \<noteq> CHR ''{''" "c \<noteq> CHR ''[''"
    by blast
  then show ?thesis
  proof cases
    case obj
    obtain c' r' where sk2: "skip_ws r = c' # r'"
      using h sk obj by (cases "skip_ws r") simp_all
    have lr: "Suc (length r') \<le> length r"
      using skip_ws_length [of r] sk2 by simp
    show ?thesis
    proof (cases "c' = CHR ''}''")
      case True
      then have v: "v = JObject []" "rest = r'" using h sk obj sk2 by simp_all
      obtain f where f: "length s - length rest = Suc f"
        using ls lr v by (cases "length s - length rest") simp_all
      have "parse_value (Suc f) s = Some (v, rest)" using sk obj sk2 True v by simp
      then show ?thesis using f ls lr v by simp
    next
      case False
      then have "apfst_opt JObject (parse_members n (c' # r')) = Some (v, rest)"
        using h sk obj sk2 by (simp del: parse_members.simps)
      then obtain ms where ms: "parse_members n (c' # r') = Some (ms, rest)" and v: "v = JObject ms"
        by (auto simp: apfst_opt_Some)
      have ih: "length rest < length (c' # r')"
          "parse_members (length (c' # r') - length rest) (c' # r') = Some (ms, rest)"
        using m [OF ms] by simp_all
      obtain f where f: "length s - length rest = Suc f" and fl: "length (c' # r') - length rest \<le> f"
        using ls lr ih(1) by (cases "length s - length rest") auto
      have "parse_members f (c' # r') = Some (ms, rest)"
        using ih(2) fl by (rule fuel_mono_members)
      then have "parse_value (Suc f) s = Some (v, rest)"
        using sk obj sk2 False v by (simp add: apfst_opt_def del: parse_members.simps)
      then show ?thesis using f ls lr ih(1) by simp
    qed
  next
    case arr
    obtain c' r' where sk2: "skip_ws r = c' # r'"
      using h sk arr by (cases "skip_ws r") simp_all
    have lr: "Suc (length r') \<le> length r"
      using skip_ws_length [of r] sk2 by simp
    show ?thesis
    proof (cases "c' = CHR '']''")
      case True
      then have v: "v = JArray []" "rest = r'" using h sk arr sk2 by simp_all
      obtain f where f: "length s - length rest = Suc f"
        using ls lr v by (cases "length s - length rest") simp_all
      have "parse_value (Suc f) s = Some (v, rest)" using sk arr sk2 True v by simp
      then show ?thesis using f ls lr v by simp
    next
      case False
      then have "apfst_opt JArray (parse_elements n (c' # r')) = Some (v, rest)"
        using h sk arr sk2 by (simp del: parse_elements.simps)
      then obtain vs where vs: "parse_elements n (c' # r') = Some (vs, rest)" and v: "v = JArray vs"
        by (auto simp: apfst_opt_Some)
      have ih: "length rest < length (c' # r')"
          "parse_elements (length (c' # r') - length rest) (c' # r') = Some (vs, rest)"
        using e [OF vs] by simp_all
      obtain f where f: "length s - length rest = Suc f" and fl: "length (c' # r') - length rest \<le> f"
        using ls lr ih(1) by (cases "length s - length rest") auto
      have "parse_elements f (c' # r') = Some (vs, rest)"
        using ih(2) fl by (rule fuel_mono_elements)
      then have "parse_value (Suc f) s = Some (v, rest)"
        using sk arr sk2 False v by (simp add: apfst_opt_def del: parse_elements.simps)
      then show ?thesis using f ls lr ih(1) by simp
    qed
  next
    case scalar
    then have ps: "parse_scalar (c # r) = Some (v, rest)" using h sk by simp
    then have l: "length rest < length (c # r)" by (rule parse_scalar_shorter)
    obtain f where f: "length s - length rest = Suc f"
      using ls l by (cases "length s - length rest") simp_all
    have "parse_value (Suc f) s = Some (v, rest)" using sk scalar ps by simp
    then show ?thesis using f ls l by simp
  qed
qed


lemma fuel_bound_elements:
  assumes pv: "\<And>t v r. parse_value n t = Some (v, r) \<Longrightarrow>
      length r < length t \<and> parse_value (length t - length r) t = Some (v, r)"
    and e: "\<And>t vs r. parse_elements n t = Some (vs, r) \<Longrightarrow>
      length r < length t \<and> parse_elements (length t - length r) t = Some (vs, r)"
    and h: "parse_elements (Suc n) s = Some (vs, rest)"
  shows "length rest < length s \<and> parse_elements (length s - length rest) s = Some (vs, rest)"
proof -
  obtain v r where v: "parse_value n s = Some (v, r)"
    using h by (cases "parse_value n s") auto
  obtain c r' where sk: "skip_ws r = c # r'"
    using h v by (cases "skip_ws r") simp_all
  have ihv: "length r < length s" "parse_value (length s - length r) s = Some (v, r)"
    using pv [OF v] by simp_all
  have lr: "Suc (length r') \<le> length r"
    using skip_ws_length [of r] sk by simp
  consider (more) "c = CHR '',''" | (last) "c \<noteq> CHR '',''" "c = CHR '']''"
    using h v sk by (cases "c = CHR '',''"; cases "c = CHR '']''") simp_all
  then show ?thesis
  proof cases
    case more
    then have "prepend v (parse_elements n r') = Some (vs, rest)"
      using h v sk by simp
    then obtain xs where xs: "parse_elements n r' = Some (xs, rest)" and vs: "vs = v # xs"
      by (auto simp: prepend_Some)
    have ihe: "length rest < length r'" "parse_elements (length r' - length rest) r' = Some (xs, rest)"
      using e [OF xs] by simp_all
    obtain f where f: "length s - length rest = Suc f"
      and f1: "length s - length r \<le> f" and f2: "length r' - length rest \<le> f"
      using ihv(1) lr ihe(1) by (cases "length s - length rest") auto
    have "parse_value f s = Some (v, r)" using ihv(2) f1 by (rule fuel_mono)
    moreover have "parse_elements f r' = Some (xs, rest)" using ihe(2) f2 by (rule fuel_mono_elements)
    ultimately have "parse_elements (Suc f) s = Some (vs, rest)"
      using sk more vs by (simp add: prepend_def)
    then show ?thesis using f ihv(1) lr ihe(1) by simp
  next
    case last
    then have vs: "vs = [v]" "rest = r'" using h v sk by simp_all
    obtain f where f: "length s - length rest = Suc f" and f1: "length s - length r \<le> f"
      using ihv(1) lr vs by (cases "length s - length rest") auto
    have "parse_value f s = Some (v, r)" using ihv(2) f1 by (rule fuel_mono)
    then have "parse_elements (Suc f) s = Some (vs, rest)"
      using sk last vs by simp
    then show ?thesis using f ihv(1) lr vs by simp
  qed
qed

lemma fuel_bound_members:
  assumes pv: "\<And>t v r. parse_value n t = Some (v, r) \<Longrightarrow>
      length r < length t \<and> parse_value (length t - length r) t = Some (v, r)"
    and m: "\<And>t ms r. parse_members n t = Some (ms, r) \<Longrightarrow>
      length r < length t \<and> parse_members (length t - length r) t = Some (ms, r)"
    and h: "parse_members (Suc n) s = Some (ms, rest)"
  shows "length rest < length s \<and> parse_members (length s - length rest) s = Some (ms, rest)"
proof -
  obtain k r0 where k: "parse_key s = Some (k, r0)"
    using h by (cases "parse_key s") auto
  have l0: "length r0 < length s" using k by (rule parse_key_shorter)
  obtain v r where v: "parse_value n r0 = Some (v, r)"
    using h k by (cases "parse_value n r0") auto
  obtain c r' where sk: "skip_ws r = c # r'"
    using h k v by (cases "skip_ws r") simp_all
  have ihv: "length r < length r0" "parse_value (length r0 - length r) r0 = Some (v, r)"
    using pv [OF v] by simp_all
  have lr: "Suc (length r') \<le> length r"
    using skip_ws_length [of r] sk by simp
  consider (more) "c = CHR '',''" | (last) "c \<noteq> CHR '',''" "c = CHR ''}''"
    using h k v sk by (cases "c = CHR '',''"; cases "c = CHR ''}''") simp_all
  then show ?thesis
  proof cases
    case more
    then have "prepend (k, v) (parse_members n r') = Some (ms, rest)"
      using h k v sk by simp
    then obtain xs where xs: "parse_members n r' = Some (xs, rest)" and ms: "ms = (k, v) # xs"
      by (auto simp: prepend_Some)
    have ihm: "length rest < length r'" "parse_members (length r' - length rest) r' = Some (xs, rest)"
      using m [OF xs] by simp_all
    obtain f where f: "length s - length rest = Suc f"
      and f1: "length r0 - length r \<le> f" and f2: "length r' - length rest \<le> f"
      using l0 ihv(1) lr ihm(1) by (cases "length s - length rest") auto
    have "parse_value f r0 = Some (v, r)" using ihv(2) f1 by (rule fuel_mono)
    moreover have "parse_members f r' = Some (xs, rest)" using ihm(2) f2 by (rule fuel_mono_members)
    ultimately have "parse_members (Suc f) s = Some (ms, rest)"
      using k sk more ms by (simp add: prepend_def)
    then show ?thesis using f l0 ihv(1) lr ihm(1) by simp
  next
    case last
    then have ms: "ms = [(k, v)]" "rest = r'" using h k v sk by simp_all
    obtain f where f: "length s - length rest = Suc f" and f1: "length r0 - length r \<le> f"
      using l0 ihv(1) lr ms by (cases "length s - length rest") auto
    have "parse_value f r0 = Some (v, r)" using ihv(2) f1 by (rule fuel_mono)
    then have "parse_members (Suc f) s = Some (ms, rest)"
      using k sk last ms by simp
    then show ?thesis using f l0 ihv(1) lr ms by simp
  qed
qed

lemma fuel_bound:
  "(\<forall>s v r. parse_value n s = Some (v, r) \<longrightarrow>
      length r < length s \<and> parse_value (length s - length r) s = Some (v, r))
   \<and> (\<forall>s vs r. parse_elements n s = Some (vs, r) \<longrightarrow>
      length r < length s \<and> parse_elements (length s - length r) s = Some (vs, r))
   \<and> (\<forall>s ms r. parse_members n s = Some (ms, r) \<longrightarrow>
      length r < length s \<and> parse_members (length s - length r) s = Some (ms, r))"
proof (induction n)
  case 0
  then show ?case by simp
next
  case (Suc n)
  note pv = Suc [THEN conjunct1, rule_format]
  note pe = Suc [THEN conjunct2, THEN conjunct1, rule_format]
  note pm = Suc [THEN conjunct2, THEN conjunct2, rule_format]
  have 1: "length r < length s \<and> parse_value (length s - length r) s = Some (v, r)"
    if h: "parse_value (Suc n) s = Some (v, r)" for s v r
    using pe pm h by (rule fuel_bound_value)
  have 2: "length r < length s \<and> parse_elements (length s - length r) s = Some (vs, r)"
    if h: "parse_elements (Suc n) s = Some (vs, r)" for s vs r
    using pv pe h by (rule fuel_bound_elements)
  have 3: "length r < length s \<and> parse_members (length s - length r) s = Some (ms, r)"
    if h: "parse_members (Suc n) s = Some (ms, r)" for s ms r
    using pv pm h by (rule fuel_bound_members)
  show ?case
  proof (intro conjI allI impI)
    fix s v r assume "parse_value (Suc n) s = Some (v, r)"
    from 1 [OF this] show "length r < length s"
      and "parse_value (length s - length r) s = Some (v, r)" by (rule conjunct1, rule conjunct2)
  next
    fix s vs r assume "parse_elements (Suc n) s = Some (vs, r)"
    from 2 [OF this] show "length r < length s"
      and "parse_elements (length s - length r) s = Some (vs, r)" by (rule conjunct1, rule conjunct2)
  next
    fix s ms r assume "parse_members (Suc n) s = Some (ms, r)"
    from 3 [OF this] show "length r < length s"
      and "parse_members (length s - length r) s = Some (ms, r)" by (rule conjunct1, rule conjunct2)
  qed
qed

lemma JSON_parse_fuel:
  "JSON_parse text = Some v \<longleftrightarrow> (\<exists>n rest. parse_value n text = Some (v, rest) \<and> skip_ws rest = [])"
proof
  assume a: "JSON_parse text = Some v"
  then obtain x where x: "parse_value (length text) text = Some x"
    by (cases "parse_value (length text) text") (simp_all add: JSON_parse_def)
  obtain v' rest where vr: "x = (v', rest)" by (cases x)
  have "skip_ws rest = [] \<and> v' = v"
    using a x vr by (simp add: JSON_parse_def split: if_splits)
  then show "\<exists>n rest. parse_value n text = Some (v, rest) \<and> skip_ws rest = []"
    using x vr by blast
next
  assume "\<exists>n rest. parse_value n text = Some (v, rest) \<and> skip_ws rest = []"
  then obtain n rest where p: "parse_value n text = Some (v, rest)" and w: "skip_ws rest = []"
    by blast
  have "parse_value (length text - length rest) text = Some (v, rest)"
    using fuel_bound [of n] p by blast
  then have "parse_value (length text) text = Some (v, rest)"
    by (rule fuel_mono) simp
  then show "JSON_parse text = Some v" using w by (simp add: JSON_parse_def)
qed


section \<open>Properties of the persisted library\<close>































text \<open>
  Claim C4, as stated, fails.  A payload that is well-formed JSON but no library is
  malformed persisted data all the same, and it is not replaced by the default:
  \<open>JSON.parse\<close> accepts it, nothing is thrown, and the parsed value becomes the library.
  With \<open>null\<close> stored under the library's key and a default of one video, the loaded
  library is \<open>null\<close>, not the default, and the first render of the grid throws.
\<close>

theorem corrupt_payload_counterexample:
  "getItem [''kidsVideoLibrary'' \<mapsto> ''null''] ''kidsVideoLibrary'' = Some ''null''
   \<and> videoLibrary_initial
        (json_of_library [\<lparr>id' = ''dQw4w9WgXcQ'', title = ''Song'', emoji = ''*'', color = ''#FF6B6B''\<rparr>])
        [''kidsVideoLibrary'' \<mapsto> ''null'']
      = JNull
   \<and> JNull \<noteq> json_of_library [\<lparr>id' = ''dQw4w9WgXcQ'', title = ''Song'', emoji = ''*'', color = ''#FF6B6B''\<rparr>]
   \<and> VideoGrid_cards
        (videoLibrary_initial
          (json_of_library [\<lparr>id' = ''dQw4w9WgXcQ'', title = ''Song'', emoji = ''*'', color = ''#FF6B6B''\<rparr>])
          [''kidsVideoLibrary'' \<mapsto> ''null''])
      = Inl TypeError"
proof -
  have p: "JSON_parse ''null'' = Some JNull" by code_simp
  show ?thesis
    by (simp add: videoLibrary_initial_def getItem_def p json_of_library_def VideoGrid_cards_def)
qed

lemma VideoGrid_cards_library: "VideoGrid_cards (json_of_library lib) = Inr (map json_of_video lib)"
  by (auto simp: VideoGrid_cards_def json_of_library_def json_of_video_def)

text \<open>
  Claim C4, amended.  If at start-up the storage holds a payload under the library's key
  and the payload is not well-formed JSON, so that \<open>JSON.parse\<close> rejects it, then the
  loaded library is exactly the compiled-in default, whatever the default is: the
  exception is caught and nothing else is returned.  With a default that is a sequence
  of videos, the first render of the grid then throws nothing and shows one card for
  each default video, in order.
\<close>

theorem corrupt_payload_default:
  assumes "getItem st ''kidsVideoLibrary'' = Some saved" and "JSON_parse saved = None"
  shows "videoLibrary_initial videos st = videos
         \<and> VideoGrid_cards (videoLibrary_initial (json_of_library lib) st)
             = Inr (map json_of_video lib)"
  using assms by (simp add: videoLibrary_initial_def VideoGrid_cards_library)

lemma truncated_payload: "JSON_parse (''[{'' @ dquote # ''id'' @ dquote # '':'') = None"
  by code_simp

theorem corrupt_payload_default_witness:
  "getItem [''kidsVideoLibrary'' \<mapsto> ''[{'' @ dquote # ''id'' @ dquote # '':''] ''kidsVideoLibrary''
     = Some (''[{'' @ dquote # ''id'' @ dquote # '':'')
   \<and> JSON_parse (''[{'' @ dquote # ''id'' @ dquote # '':'') = None
   \<and> videoLibrary_initial (JArray []) [''kidsVideoLibrary'' \<mapsto> ''[{'' @ dquote # ''id'' @ dquote # '':'']
     = JArray []
   \<and> VideoGrid_cards
        (videoLibrary_initial
          (json_of_library [\<lparr>id' = ''dQw4w9WgXcQ'', title = ''Song'', emoji = ''*'', color = ''#FF6B6B''\<rparr>])
          [''kidsVideoLibrary'' \<mapsto> ''[{'' @ dquote # ''id'' @ dquote # '':''])
      = Inr [JObject [(''id'', JString ''dQw4w9WgXcQ''), (''title'', JString ''Song''),
                      (''emoji'', JString ''*''), (''color'', JString ''#FF6B6B'')]]"
proof -
  have g: "getItem [''kidsVideoLibrary'' \<mapsto> ''[{'' @ dquote # ''id'' @ dquote # '':''] ''kidsVideoLibrary''
     = Some (''[{'' @ dquote # ''id'' @ dquote # '':'')"
    by (simp add: getItem_def)
  show ?thesis
    using g truncated_payload
      corrupt_payload_default [OF g truncated_payload, of "JArray []"
        "[\<lparr>id' = ''dQw4w9WgXcQ'', title = ''Song'', emoji = ''*'', color = ''#FF6B6B''\<rparr>]"]
    by (simp add: json_of_video_def)
qed

text \<open>
  Beside the claim.  A payload is rejected exactly when no reading of it as one JSON
  value followed by white space exists, whatever fuel the parser is given.  An absent
  or empty payload loads the default too, and a payload that is accepted is loaded as
  parsed, whatever its shape.
\<close>

lemma rejected_payload:
  "JSON_parse saved = None \<longleftrightarrow> (\<nexists>n v rest. parse_value n saved = Some (v, rest) \<and> skip_ws rest = [])"
proof -
  have "JSON_parse saved = None \<longleftrightarrow> (\<nexists>v. JSON_parse saved = Some v)" by auto
  then show ?thesis unfolding JSON_parse_fuel by blast
qed

lemma absent_or_empty_payload:
  "getItem st ''kidsVideoLibrary'' = None \<or> getItem st ''kidsVideoLibrary'' = Some [] \<Longrightarrow>
   videoLibrary_initial videos st = videos"
  by (auto simp: videoLibrary_initial_def)

lemma accepted_payload_is_kept:
  "getItem st ''kidsVideoLibrary'' = Some saved \<Longrightarrow> JSON_parse saved = Some v \<Longrightarrow>
   videoLibrary_initial videos st = v"
  by (auto simp: videoLibrary_initial_def JSON_parse_def)

lemma other_shape_payload: "JSON_parse ''{}'' = Some (JObject [])"
  by code_simp

lemma other_shape_payload_is_kept:
  "videoLibrary_initial videos [''kidsVideoLibrary'' \<mapsto> ''{}''] = JObject []"
  by (simp add: videoLibrary_initial_def getItem_def other_shape_payload)

end
